(* ===== verification/Audio_Prelude.thy ===== *)
theory Audio_Prelude
  imports Complex_Main "HOL-Library.Word"
begin

text \<open>
  Shared vocabulary of the development: the machine types of the wasm32 target
  (\<open>usize\<close> is 32 bits wide there), the collection \<open>audio_simps\<close> of rewrite rules that
  the component theories register their evaluation lemmas in, and generic lemmas on
  lists, sums of squares, square roots and logarithms that several components use.
\<close>

type_synonym usize = "32 word"

named_theorems audio_simps "evaluation rules of the audio model"

section \<open>Lists\<close>

lemma foldl_plus_sum_list:
  fixes xs :: "'a::comm_monoid_add list"
  shows "foldl (+) a xs = a + sum_list xs"
proof (induction xs arbitrary: a)
  case Nil
  then show ?case by simp
next
  case (Cons x xs)
  then show ?case by (simp add: add.assoc)
qed

lemma take_drop_mult_Suc:
  "take n (drop (i * n) xs) @ drop (Suc i * n) xs = drop (i * n) xs"
  by (metis append_take_drop_id drop_drop mult_Suc)

section \<open>Sums of squares\<close>

lemma sum_list_squares_nonneg [simp]:
  "0 \<le> sum_list (map (\<lambda>x::real. x * x) xs)"
  by (induction xs) auto

lemma sum_list_squares_eq_0_iff:
  "sum_list (map (\<lambda>x::real. x * x) xs) = 0 \<longleftrightarrow> (\<forall>x\<in>set xs. x = 0)"
proof (induction xs)
  case Nil
  then show ?case by simp
next
  case (Cons x xs)
  have "0 \<le> x * x" by simp
  moreover have "0 \<le> sum_list (map (\<lambda>x::real. x * x) xs)" by simp
  ultimately show ?case using Cons.IH by (auto simp: add_nonneg_eq_0_iff)
qed

lemma sum_list_squares_scale:
  "(\<Sum>x\<leftarrow>xs. (k * x) * (k * x :: real)) = k * k * sum_list (map (\<lambda>x. x * x) xs)"
  by (induction xs) (auto simp: algebra_simps)

lemma sum_list_squares_bound:
  assumes "\<forall>x\<in>set xs. \<bar>x::real\<bar> \<le> b"
  shows "sum_list (map (\<lambda>x. x * x) xs) \<le> real (length xs) * (b * b)"
  using assms
proof (induction xs)
  case Nil
  then show ?case by simp
next
  case (Cons x xs)
  have xb: "\<bar>x\<bar> \<le> b" using Cons.prems by simp
  then have "\<bar>x\<bar> * \<bar>x\<bar> \<le> b * b"
    by (intro mult_mono) auto
  then have "x * x \<le> b * b"
    by simp
  with Cons show ?case by (simp add: algebra_simps)
qed

section \<open>Logarithms in base ten\<close>

lemma log10_pow10_inverse: "log 10 (1 / 10 ^ n) = - real n"
  by (simp add: log_divide log_nat_power)

lemma log10_mono_le: "0 < x \<Longrightarrow> x \<le> y \<Longrightarrow> log 10 x \<le> log 10 y"
  by simp

lemma log10_mono_less: "0 < x \<Longrightarrow> x < y \<Longrightarrow> log 10 x < log 10 y"
  by simp

end
