(* ===== verification/Float_Ops.thy ===== *)
theory Float_Ops
  imports Audio_Prelude
begin

text \<open>
  The interface between the numeric code and the floating-point arithmetic it runs on.
  \<open>src/src/core/wasm/src/lib.rs\<close> computes with two primitive types, \<open>f32\<close> (samples,
  RMS values, decibels) and \<open>f64\<close> (the sum of squares). The record \<open>fops\<close> names every
  primitive operation the source applies, one field per Rust operation, over a type
  \<open>'s\<close> of single-precision values and a type \<open>'d\<close> of double-precision values:
  \<^item> \<open>to_f64\<close>: the cast \<open>sample as f64\<close>;
  \<^item> \<open>f64_zero\<close>: the start value of \<open>Sum for f64\<close> (\<open>.sum()\<close> folds \<open>+\<close> from it);
  \<^item> \<open>f64_add\<close>, \<open>f64_mul\<close>, \<open>f64_div\<close>, \<open>f64_sqrt\<close>: \<open>+\<close>, \<open>*\<close>, \<open>/\<close>, \<open>.sqrt()\<close> on \<open>f64\<close>;
  \<^item> \<open>f64_of_usize\<close>: the cast \<open>chunk.len() as f64\<close>;
  \<^item> \<open>to_f32\<close>: the cast \<open>(..) as f32\<close>;
  \<^item> \<open>f32_lit\<close>: an \<open>f32\<close> literal of the source, given by its decimal value;
  \<^item> \<open>f32_max\<close>, \<open>f32_log10\<close>, \<open>f32_mul\<close>: \<open>.max()\<close>, \<open>.log10()\<close> and \<open>*\<close> on \<open>f32\<close>.
  The component theories are written against this record, so their definitions read
  like the source and their structural lemmas (chunking, ordering, lengths, panics,
  capacity) hold for every arithmetic. The instance \<open>real_ops\<close> below is exact real
  arithmetic, the mathematical meaning the source's comments give each line; the
  numeric lemmas of the RMS and decibel component are stated for it.
\<close>

record ('s, 'd) fops =
  to_f64 :: "'s \<Rightarrow> 'd"
  f64_zero :: 'd
  f64_add :: "'d \<Rightarrow> 'd \<Rightarrow> 'd"
  f64_mul :: "'d \<Rightarrow> 'd \<Rightarrow> 'd"
  f64_div :: "'d \<Rightarrow> 'd \<Rightarrow> 'd"
  f64_sqrt :: "'d \<Rightarrow> 'd"
  f64_of_usize :: "nat \<Rightarrow> 'd"
  to_f32 :: "'d \<Rightarrow> 's"
  f32_zero :: 's
  f32_lit :: "real \<Rightarrow> 's"
  f32_max :: "'s \<Rightarrow> 's \<Rightarrow> 's"
  f32_log10 :: "'s \<Rightarrow> 's"
  f32_mul :: "'s \<Rightarrow> 's \<Rightarrow> 's"

text \<open>Exact real arithmetic: every cast is the identity and no operation rounds.\<close>

definition real_ops :: "(real, real) fops" where
  "real_ops =
     \<lparr> to_f64 = id, f64_zero = 0, f64_add = (+), f64_mul = (*), f64_div = (/),
       f64_sqrt = sqrt, f64_of_usize = real, to_f32 = id, f32_zero = 0, f32_lit = id,
       f32_max = max, f32_log10 = log 10, f32_mul = (*) \<rparr>"

lemma real_ops_simps [simp, audio_simps]:
  "to_f64 real_ops = id" "f64_zero real_ops = 0" "f64_add real_ops = (+)"
  "f64_mul real_ops = (*)" "f64_div real_ops = (/)" "f64_sqrt real_ops = sqrt"
  "f64_of_usize real_ops = real" "to_f32 real_ops = id" "f32_zero real_ops = 0"
  "f32_lit real_ops = id" "f32_max real_ops = max" "f32_log10 real_ops = log 10"
  "f32_mul real_ops = (*)"
  by (simp_all add: real_ops_def)

end
