(* ===== verification/Rms.thy ===== *)
theory Rms
  imports Float_Ops
begin

text \<open>
  The two numeric functions of \<open>src/src/core/wasm/src/lib.rs\<close>: the RMS reducer
  \<open>calculate_rms\<close> (lines 27--39), with its sum of squares \<open>sum_sq\<close> (line 34) kept as a
  definition of its own, and the decibel converter \<open>rms_to_dbfs\<close> (lines 47--54) with the
  constant \<open>MIN_RMS\<close> (line 7). All three are written against the arithmetic interface
  \<open>fops\<close>; the lemmas give their exact-real meaning (\<open>real_ops\<close>): the RMS is the square
  root of the mean square, it is non-negative, zero exactly on silent chunks, scales
  with the samples and is bounded by the peak; the converter is \<open>20 log10\<close> above the
  floor \<open>MIN_RMS\<close>, is constant at -200 dB on and below it, and is monotone.
\<close>

section \<open>Definitions\<close>

text \<open>\<open>const MIN_RMS: f32 = 1.0e-10;\<close>\<close>

definition MIN_RMS :: real where
  "MIN_RMS = 1 / 10 ^ 10"

text \<open>\<open>chunk.iter().map(|&sample| (sample as f64) * (sample as f64)).sum()\<close>\<close>

definition sum_sq :: "('s, 'd) fops \<Rightarrow> 's list \<Rightarrow> 'd" where
  "sum_sq ops chunk =
     foldl (f64_add ops) (f64_zero ops)
       (map (\<lambda>sample. f64_mul ops (to_f64 ops sample) (to_f64 ops sample)) chunk)"

definition calculate_rms :: "('s, 'd) fops \<Rightarrow> 's list \<Rightarrow> 's" where
  "calculate_rms ops chunk =
     (if chunk = [] then f32_zero ops
      else to_f32 ops (f64_sqrt ops (f64_div ops (sum_sq ops chunk)
                                         (f64_of_usize ops (length chunk)))))"

definition rms_to_dbfs :: "('s, 'd) fops \<Rightarrow> 's \<Rightarrow> 's" where
  "rms_to_dbfs ops rms =
     (let rms_clamped = f32_max ops rms (f32_lit ops MIN_RMS)
      in f32_mul ops (f32_lit ops 20) (f32_log10 ops rms_clamped))"

section \<open>Exact-real meaning\<close>

lemma MIN_RMS_pos [simp]: "0 < MIN_RMS"
  by (simp add: MIN_RMS_def)

lemma MIN_RMS_nonneg [simp]: "0 \<le> MIN_RMS"
  by (simp add: MIN_RMS_def)

lemma MIN_RMS_not_neg [simp]: "\<not> MIN_RMS < 0" "MIN_RMS \<noteq> 0"
  by (simp_all add: MIN_RMS_def)

lemma MIN_RMS_less_1 [simp]: "MIN_RMS < 1"
  by (simp add: MIN_RMS_def)

lemma MIN_RMS_le_1 [simp]: "MIN_RMS \<le> 1"
  by (simp add: MIN_RMS_def)

lemma log10_MIN_RMS: "log 10 MIN_RMS = -10"
  using log10_pow10_inverse [of 10] by (simp add: MIN_RMS_def)

lemma sum_sq_real [audio_simps]:
  "sum_sq real_ops chunk = sum_list (map (\<lambda>x. x * x) chunk)"
  by (simp add: sum_sq_def foldl_plus_sum_list)

lemma calculate_rms_real [audio_simps]:
  "calculate_rms real_ops chunk =
     (if chunk = [] then 0
      else sqrt (sum_list (map (\<lambda>x. x * x) chunk) / real (length chunk)))"
  by (simp add: calculate_rms_def sum_sq_real)

lemma rms_to_dbfs_real [audio_simps]:
  "rms_to_dbfs real_ops r = 20 * log 10 (max r MIN_RMS)"
  by (simp add: rms_to_dbfs_def)

lemma rms_to_dbfs_real_floor [simp]: "rms_to_dbfs real_ops MIN_RMS = -200"
  by (simp add: rms_to_dbfs_real log10_MIN_RMS)

lemma rms_to_dbfs_real_one [simp]: "rms_to_dbfs real_ops 1 = 0"
  by (simp add: rms_to_dbfs_real)

lemma calculate_rms_real_nonneg [simp]: "0 \<le> calculate_rms real_ops chunk"
  by (simp add: calculate_rms_real)

section \<open>Helper facts on the converter\<close>

lemma rms_to_dbfs_real_mono:
  assumes "r \<le> r'"
  shows "rms_to_dbfs real_ops r \<le> rms_to_dbfs real_ops r'"
proof -
  have "log 10 (max r MIN_RMS) \<le> log 10 (max r' MIN_RMS)"
    using assms by (intro log_mono) (auto simp: less_max_iff_disj)
  then show ?thesis by (simp add: rms_to_dbfs_real)
qed

lemma rms_to_dbfs_real_strict_mono:
  assumes "r < r'" "MIN_RMS < r'"
  shows "rms_to_dbfs real_ops r < rms_to_dbfs real_ops r'"
proof -
  have "log 10 (max r MIN_RMS) < log 10 (max r' MIN_RMS)"
    using assms by (intro log_less) (auto simp: less_max_iff_disj)
  then show ?thesis by (simp add: rms_to_dbfs_real)
qed

lemma rms_to_dbfs_real_at_floor:
  "r \<le> MIN_RMS \<Longrightarrow> rms_to_dbfs real_ops r = -200"
  by (metis rms_to_dbfs_real rms_to_dbfs_real_floor max.absorb2 max.idem)

lemma rms_to_dbfs_real_lower: "-200 \<le> rms_to_dbfs real_ops r"
  using rms_to_dbfs_real_mono [of MIN_RMS "max r MIN_RMS"]
  by (simp add: rms_to_dbfs_real log10_MIN_RMS)

lemma calculate_rms_real_scale:
  "calculate_rms real_ops (map ((*) k) c) = \<bar>k\<bar> * calculate_rms real_ops c"
  by (simp add: calculate_rms_real o_def sum_list_squares_scale real_sqrt_mult real_sqrt_divide)

section \<open>Properties of the RMS reducer\<close>

text \<open>
  C9: the RMS of a chunk of \<open>n > 0\<close> equal samples \<open>a\<close> is \<open>|a|\<close>
  (the spec's "N identical samples of magnitude a give RMS a").
\<close>

theorem calculate_rms_replicate:
  "0 < n \<Longrightarrow> calculate_rms real_ops (replicate n a) = \<bar>a\<bar>"
  by (simp add: calculate_rms_real sum_list_replicate)

theorem calculate_rms_replicate_witness:
  "0 < (4::nat) \<and> calculate_rms real_ops (replicate 4 (-1/2)) = 1/2"
  using calculate_rms_replicate [of 4 "-1/2"] by simp

text \<open>
  C10: the RMS reducer returns 0 exactly on silent chunks (the empty chunk included) and
  is positive on every chunk with a non-zero sample.
\<close>

theorem calculate_rms_eq_0_iff:
  "calculate_rms real_ops chunk = 0 \<longleftrightarrow> (\<forall>x\<in>set chunk. x = 0)"
  by (simp add: calculate_rms_real sum_list_squares_eq_0_iff)

theorem calculate_rms_eq_0_iff_witness:
  "calculate_rms real_ops [0, 0, 0] = 0 \<and> calculate_rms real_ops [0, 3, 0] \<noteq> 0"
  using calculate_rms_eq_0_iff [of "[0, 0, 0]"] calculate_rms_eq_0_iff [of "[0, 3, 0]"]
  by simp

text \<open>
  C11: the RMS scales with the samples: multiplying every sample of a chunk by \<open>k\<close>
  multiplies its RMS by \<open>|k|\<close>.
\<close>

theorem calculate_rms_scale:
  "calculate_rms real_ops (map (\<lambda>x. k * x) chunk) = \<bar>k\<bar> * calculate_rms real_ops chunk"
  using calculate_rms_real_scale [of k chunk] by (simp add: o_def)

text \<open>
  C12: the RMS is bounded by the peak: when every sample lies in \<open>[-b, b]\<close> (full
  scale: \<open>b = 1\<close>) the RMS lies in \<open>[0, b]\<close>.
\<close>

theorem calculate_rms_le_peak:
  assumes "0 \<le> b" "\<forall>x\<in>set chunk. \<bar>x\<bar> \<le> b"
  shows "0 \<le> calculate_rms real_ops chunk \<and> calculate_rms real_ops chunk \<le> b"
proof (cases "chunk = []")
  case True
  with assms show ?thesis by (simp add: calculate_rms_real)
next
  case False
  then have n: "0 < real (length chunk)" by simp
  have "sum_list (map (\<lambda>x. x * x) chunk) / real (length chunk) \<le> b * b"
    using sum_list_squares_bound [OF assms(2)] n by (simp add: divide_le_eq mult.commute)
  then have "sqrt (sum_list (map (\<lambda>x. x * x) chunk) / real (length chunk)) \<le> sqrt (b * b)"
    by (rule real_sqrt_le_mono)
  with assms(1) False show ?thesis by (simp add: calculate_rms_real)
qed

theorem calculate_rms_le_peak_witness:
  "(0::real) \<le> 1
   \<and> 0 \<le> calculate_rms real_ops [1, -1, 1/2] \<and> calculate_rms real_ops [1, -1, 1/2] \<le> 1"
  using calculate_rms_le_peak [of 1 "[1, -1, 1/2]"] by simp

section \<open>Properties of the decibel converter\<close>

text \<open>
  C13: the decibel value never falls below the floor -200 dBFS (\<open>20 log10 MIN_RMS\<close>), and
  it equals the floor exactly for the amplitudes at or below \<open>MIN_RMS\<close>: every
  sub-epsilon amplitude, not only 0, is clamped identically, as the \<open>max\<close> in line 49
  intends; no amplitude yields minus infinity.
\<close>

theorem rms_to_dbfs_floor:
  "-200 \<le> rms_to_dbfs real_ops r \<and> (rms_to_dbfs real_ops r = -200 \<longleftrightarrow> r \<le> MIN_RMS)"
proof (intro conjI iffI)
  show "-200 \<le> rms_to_dbfs real_ops r" by (rule rms_to_dbfs_real_lower)
next
  assume eq: "rms_to_dbfs real_ops r = -200"
  show "r \<le> MIN_RMS"
  proof (rule ccontr)
    assume "\<not> r \<le> MIN_RMS"
    then have "rms_to_dbfs real_ops MIN_RMS < rms_to_dbfs real_ops r"
      by (intro rms_to_dbfs_real_strict_mono) auto
    with eq show False by simp
  qed
next
  assume "r \<le> MIN_RMS"
  then show "rms_to_dbfs real_ops r = -200" by (rule rms_to_dbfs_real_at_floor)
qed

text \<open>
  C15: the converter is monotone, and strictly monotone once the larger amplitude is above
  the floor.
\<close>

theorem rms_to_dbfs_monotone:
  "r \<le> r' \<Longrightarrow> rms_to_dbfs real_ops r \<le> rms_to_dbfs real_ops r'
     \<and> (r < r' \<and> MIN_RMS < r' \<longrightarrow> rms_to_dbfs real_ops r < rms_to_dbfs real_ops r')"
  by (auto intro: rms_to_dbfs_real_mono rms_to_dbfs_real_strict_mono)

theorem rms_to_dbfs_monotone_witness:
  "(0::real) \<le> 1 \<and> rms_to_dbfs real_ops 0 \<le> rms_to_dbfs real_ops 1
   \<and> rms_to_dbfs real_ops 0 < rms_to_dbfs real_ops 1"
  using rms_to_dbfs_monotone [of 0 1] by simp

text \<open>
  C16: a chunk's decibel value is at most 0 dBFS exactly when its amplitude is at most full
  scale.
\<close>

theorem rms_to_dbfs_nonpos_iff: "rms_to_dbfs real_ops r \<le> 0 \<longleftrightarrow> r \<le> 1"
proof
  assume "rms_to_dbfs real_ops r \<le> 0"
  show "r \<le> 1"
  proof (rule ccontr)
    assume "\<not> r \<le> 1"
    then have "1 < r" "MIN_RMS < r" using MIN_RMS_less_1 by linarith+
    then have "rms_to_dbfs real_ops 1 < rms_to_dbfs real_ops r"
      by (rule rms_to_dbfs_real_strict_mono)
    with \<open>rms_to_dbfs real_ops r \<le> 0\<close> show False by simp
  qed
next
  assume "r \<le> 1"
  then show "rms_to_dbfs real_ops r \<le> 0"
    using rms_to_dbfs_real_mono [of r 1] by (simp add: rms_to_dbfs_real)
qed

text \<open>
  C17: the spec's monotonicity property: amplifying every sample of a chunk by a gain of
  magnitude at least 1 never lowers the chunk's decibel value, and a gain above 1
  raises it strictly as soon as the amplified RMS is above the floor.
\<close>

theorem chunk_gain_monotone:
  assumes "1 \<le> \<bar>k\<bar>"
  shows "rms_to_dbfs real_ops (calculate_rms real_ops chunk)
           \<le> rms_to_dbfs real_ops (calculate_rms real_ops (map (\<lambda>x. k * x) chunk))
         \<and> (1 < \<bar>k\<bar> \<and> MIN_RMS < \<bar>k\<bar> * calculate_rms real_ops chunk \<longrightarrow>
              rms_to_dbfs real_ops (calculate_rms real_ops chunk)
                < rms_to_dbfs real_ops (calculate_rms real_ops (map (\<lambda>x. k * x) chunk)))"
proof -
  let ?r = "calculate_rms real_ops chunk"
  have scale: "calculate_rms real_ops (map (\<lambda>x. k * x) chunk) = \<bar>k\<bar> * ?r"
    using calculate_rms_real_scale [of k chunk] by (simp add: o_def)
  have le: "?r \<le> \<bar>k\<bar> * ?r"
    using assms mult_right_mono [OF assms, of ?r] by simp
  have strict: "?r < \<bar>k\<bar> * ?r" if "1 < \<bar>k\<bar>" "MIN_RMS < \<bar>k\<bar> * ?r"
  proof -
    have "0 < \<bar>k\<bar> * ?r" using that(2) MIN_RMS_pos by linarith
    then have "0 < ?r" by (simp add: zero_less_mult_iff)
    then show ?thesis using that(1) by simp
  qed
  show ?thesis
    unfolding scale using le strict
    by (auto intro: rms_to_dbfs_real_mono rms_to_dbfs_real_strict_mono)
qed

theorem chunk_gain_monotone_witness:
  "1 \<le> \<bar>2::real\<bar>
   \<and> rms_to_dbfs real_ops (calculate_rms real_ops [1/4, 1/4])
       < rms_to_dbfs real_ops (calculate_rms real_ops (map (\<lambda>x. 2 * x) [1/4, 1/4]))"
proof -
  have s: "sqrt (1 / 16) = (1 / 4 :: real)"
    by (rule real_sqrt_unique) (simp_all add: power2_eq_square)
  have r: "calculate_rms real_ops [1/4, 1/4 :: real] = 1/4"
    by (simp add: calculate_rms_real s)
  have "MIN_RMS < \<bar>2::real\<bar> * calculate_rms real_ops [1/4, 1/4]"
    by (simp add: r MIN_RMS_def)
  then show ?thesis
    using chunk_gain_monotone [of 2 "[1/4, 1/4]"] by simp
qed

end
