(* ===== verification/Chunks.thy ===== *)
theory Chunks
  imports Audio_Prelude
begin

text \<open>
  The partition rule of the spec (section 4.3) as an abstract specification: \<open>chunks n xs\<close>
  cuts \<open>xs\<close> into consecutive pieces of \<open>n\<close> elements, the last one shorter when
  \<open>n\<close> does not divide the length, and nothing when \<open>n = 0\<close> or the list is empty.
  It is the reference the Rust iteration (\<open>chunks_exact\<close> and its remainder, theory
  \<open>Rust_Std\<close>) is proved to implement. The lemmas give its shape: the round trip
  through \<open>concat\<close>, the number of pieces \<open>ceil (length xs / n)\<close>, the \<open>i\<close>-th piece
  as \<open>take n (drop (i * n) xs)\<close>, and the length of each piece.
\<close>

function chunks :: "nat \<Rightarrow> 'a list \<Rightarrow> 'a list list" where
  "chunks n xs = (if n = 0 \<or> xs = [] then [] else take n xs # chunks n (drop n xs))"
  by pat_completeness auto
termination
  by (relation "measure (\<lambda>(n, xs). length xs)") auto

declare chunks.simps [simp del]

lemma chunks_Nil [simp]: "chunks n [] = []"
  by (simp add: chunks.simps)

lemma chunks_0 [simp]: "chunks 0 xs = []"
  by (simp add: chunks.simps)

lemma chunks_step:
  "0 < n \<Longrightarrow> xs \<noteq> [] \<Longrightarrow> chunks n xs = take n xs # chunks n (drop n xs)"
  by (simp add: chunks.simps)

lemma chunks_short:
  assumes "0 < length xs" "length xs \<le> n"
  shows "chunks n xs = [xs]"
proof -
  have "0 < n" using assms by linarith
  with assms show ?thesis by (simp add: chunks_step)
qed

lemma chunks_append_dvd:
  "n dvd length xs \<Longrightarrow> chunks n (xs @ ys) = chunks n xs @ chunks n ys"
proof (induction n xs rule: chunks.induct)
  case (1 n xs)
  show ?case
  proof (cases "n = 0 \<or> xs = []")
    case True
    then show ?thesis by auto
  next
    case False
    then have n: "n \<le> length xs" using "1.prems" by (auto dest: dvd_imp_le)
    have "n dvd length (drop n xs)" using "1.prems" n by simp
    then have IH: "chunks n (drop n xs @ ys) = chunks n (drop n xs) @ chunks n ys"
      using "1.IH" False by blast
    show ?thesis
      using False n IH by (simp add: chunks_step)
  qed
qed

lemma concat_chunks_helper: "0 < n \<Longrightarrow> concat (chunks n xs) = xs"
proof (induction n xs rule: chunks.induct)
  case (1 n xs)
  then show ?case
    by (cases "xs = []") (simp_all add: chunks_step)
qed

lemma length_chunks_helper:
  "length (chunks n xs) = (if n = 0 then 0 else (length xs + n - 1) div n)"
proof (induction n xs rule: chunks.induct)
  case (1 n xs)
  show ?case
  proof (cases "n = 0 \<or> xs = []")
    case True
    then show ?thesis by auto
  next
    case False
    then have "length (chunks n xs) = Suc ((length xs - n + n - 1) div n)"
      using "1.IH" by (simp add: chunks_step)
    also have "\<dots> = (length xs + n - 1) div n"
    proof (cases "n \<le> length xs")
      case True
      then have "length xs + n - 1 = (length xs - n + n - 1) + n" using False by simp
      then show ?thesis using False by (simp only:) simp
    next
      case short: False
      have "(n - 1) div n = 0" using False by simp
      moreover have "(length xs + n - 1) div n = 1"
      proof (rule div_nat_eqI)
        have "0 < length xs" using False by simp
        then show "n * 1 \<le> length xs + n - 1" by linarith
        show "length xs + n - 1 < n * Suc 1" using short by simp
      qed
      ultimately show ?thesis using short by simp
    qed
    finally show ?thesis using False by simp
  qed
qed

lemma nth_chunks_helper:
  "i < length (chunks n xs) \<Longrightarrow> chunks n xs ! i = take n (drop (i * n) xs)"
proof (induction n xs arbitrary: i rule: chunks.induct)
  case (1 n xs)
  then have ne: "0 < n" "xs \<noteq> []" by (auto simp: chunks.simps split: if_splits)
  show ?case
  proof (cases i)
    case 0
    then show ?thesis using ne by (simp add: chunks_step)
  next
    case (Suc j)
    then have "j < length (chunks n (drop n xs))"
      using "1.prems" ne by (simp add: chunks_step)
    then have "chunks n (drop n xs) ! j = take n (drop (j * n) (drop n xs))"
      using "1.IH" ne by blast
    then show ?thesis using Suc ne by (simp add: chunks_step add.commute)
  qed
qed

lemma set_chunks_helper:
  "c \<in> set (chunks n xs) \<Longrightarrow> c \<noteq> [] \<and> length c \<le> n"
proof (induction n xs rule: chunks.induct)
  case (1 n xs)
  then show ?case
    by (cases "n = 0 \<or> xs = []") (auto simp: chunks_step)
qed

lemma chunks_map: "chunks n (map f xs) = map (map f) (chunks n xs)"
proof (induction n xs rule: chunks.induct)
  case (1 n xs)
  then show ?case
    by (cases "n = 0 \<or> xs = []") (auto simp: chunks_step take_map drop_map)
qed

text \<open>
  C8: the partition rule is a lossless, order-preserving split: concatenating the chunks
  gives the buffer back (no padding, dropping or wrapping), every chunk is non-empty
  and at most \<open>n\<close> long, and every chunk but the last has exactly \<open>n\<close> samples.
\<close>

theorem chunks_partition:
  assumes "0 < n"
  shows "concat (chunks n xs) = xs
         \<and> (\<forall>c\<in>set (chunks n xs). c \<noteq> [] \<and> length c \<le> n)
         \<and> (\<forall>i. Suc i < length (chunks n xs) \<longrightarrow> length (chunks n xs ! i) = n)"
proof (intro conjI allI impI ballI)
  show "concat (chunks n xs) = xs" using assms by (rule concat_chunks_helper)
next
  fix c assume "c \<in> set (chunks n xs)"
  then show "c \<noteq> []" "length c \<le> n" by (auto dest: set_chunks_helper)
next
  fix i assume i: "Suc i < length (chunks n xs)"
  let ?q = "(length xs + n - 1) div n"
  have q: "length (chunks n xs) = ?q" using assms by (simp add: length_chunks_helper)
  have "Suc (Suc i) * n \<le> ?q * n" using i q by (intro mult_le_mono1) simp
  also have "\<dots> \<le> length xs + n - 1" by (rule div_times_less_eq_dividend)
  finally have "i * n + n \<le> length xs" using assms by simp
  then show "length (chunks n xs ! i) = n"
    using i by (simp add: nth_chunks_helper)
qed

theorem chunks_partition_witness:
  "0 < (2::nat) \<and> concat (chunks 2 [1, 2, 3 :: real]) = [1, 2, 3]
   \<and> length (chunks 2 [1, 2, 3 :: real] ! 0) = 2 \<and> length (chunks 2 [1, 2, 3 :: real] ! 1) \<le> 2"
proof -
  have c: "chunks 2 [1, 2, 3 :: real] = [[1, 2], [3]]"
    by (simp add: chunks_step chunks_short)
  show ?thesis
    using chunks_partition [of 2 "[1, 2, 3 :: real]"] c by simp
qed

end
