(* ===== verification/Rust_Std.thy ===== *)
theory Rust_Std
  imports Chunks
begin

text \<open>
  The parts of the Rust standard library that \<open>analyze_audio_rms\<close> relies on, modelled
  from their documented behaviour on the wasm32 target (they are not under \<open>src/\<close>):
  \<^item> \<open>usize\<close> arithmetic (32 bits): \<open>+\<close> and \<open>-\<close> panic on overflow in a debug build
    and wrap around in a release build; \<open>/\<close> panics on a zero divisor in both;
  \<^item> \<open>slice::chunks_exact\<close> (panics on a zero chunk size), the iterator's \<open>next\<close>,
    which yields chunks of exactly the chunk size, and \<open>remainder\<close>;
  \<^item> \<open>Vec\<close> with its capacity: \<open>Vec::with_capacity\<close> (panics when the byte size of
    the request exceeds \<open>isize::MAX\<close>) and \<open>push\<close>, which grows a full buffer with
    the amortised rule of \<open>RawVec\<close> (double, at least the required length, at least 4
    elements for 4-byte elements such as \<open>f32\<close>).
  Panics are values of the datatype \<open>panic\<close>, returned on the left of a sum.
  The lemmas say when each operation panics, what it returns otherwise, that the
  \<open>ChunksExact\<close> iterator with its remainder implements the partition rule \<open>chunks\<close>,
  and that \<open>push\<close> keeps the buffer within capacity and never reallocates while
  there is room.
\<close>

section \<open>Panics, build profiles and usize arithmetic\<close>

datatype panic = AddOverflow | SubOverflow | DivByZero | ChunkSizeZero | CapacityOverflow

datatype build = Debug | Release

definition usize_add :: "build \<Rightarrow> usize \<Rightarrow> usize \<Rightarrow> panic + usize" where
  "usize_add b x y =
     (if b = Debug \<and> 2 ^ 32 \<le> unat x + unat y then Inl AddOverflow else Inr (x + y))"

definition usize_sub :: "build \<Rightarrow> usize \<Rightarrow> usize \<Rightarrow> panic + usize" where
  "usize_sub b x y = (if b = Debug \<and> unat x < unat y then Inl SubOverflow else Inr (x - y))"

definition usize_div :: "usize \<Rightarrow> usize \<Rightarrow> panic + usize" where
  "usize_div x y = (if y = 0 then Inl DivByZero else Inr (x div y))"

text \<open>\<open>isize::MAX\<close> on wasm32: the largest byte size of an allocation.\<close>

definition isize_max :: nat where
  "isize_max = 2 ^ 31 - 1"

section \<open>ChunksExact\<close>

record 'a chunks_exact_it =
  ce_v :: "'a list"
  ce_rem :: "'a list"
  ce_chunk_size :: nat

definition chunks_exact :: "'a list \<Rightarrow> nat \<Rightarrow> panic + 'a chunks_exact_it" where
  "chunks_exact v chunk_size =
     (if chunk_size = 0 then Inl ChunkSizeZero
      else (let rem = length v mod chunk_size; fst_len = length v - rem
            in Inr \<lparr> ce_v = take fst_len v, ce_rem = drop fst_len v,
                     ce_chunk_size = chunk_size \<rparr>))"

definition ce_next :: "'a chunks_exact_it \<Rightarrow> ('a list \<times> 'a chunks_exact_it) option" where
  "ce_next it =
     (if length (ce_v it) < ce_chunk_size it then None
      else Some (take (ce_chunk_size it) (ce_v it),
                 it\<lparr>ce_v := drop (ce_chunk_size it) (ce_v it)\<rparr>))"

definition ce_remainder :: "'a chunks_exact_it \<Rightarrow> 'a list" where
  "ce_remainder it = ce_rem it"

section \<open>Vec\<close>

record 'a rvec =
  vbuf :: "'a list"
  vcap :: nat

definition vec_with_capacity :: "nat \<Rightarrow> panic + 'a rvec" where
  "vec_with_capacity n =
     (if isize_max < 4 * n then Inl CapacityOverflow else Inr \<lparr> vbuf = [], vcap = n \<rparr>)"

definition vec_push :: "'a rvec \<Rightarrow> 'a \<Rightarrow> 'a rvec" where
  "vec_push v x =
     (let v' = (if length (vbuf v) = vcap v
                then v\<lparr>vcap := max 4 (max (2 * vcap v) (Suc (length (vbuf v))))\<rparr> else v)
      in v'\<lparr>vbuf := vbuf v' @ [x]\<rparr>)"

section \<open>Lemmas: usize\<close>

lemma usize_add_Release [simp]: "usize_add Release x y = Inr (x + y)"
  by (simp add: usize_add_def)

lemma usize_sub_Release [simp]: "usize_sub Release x y = Inr (x - y)"
  by (simp add: usize_sub_def)

lemma usize_add_Debug:
  "usize_add Debug x y =
     (if 2 ^ 32 \<le> unat x + unat y then Inl AddOverflow else Inr (x + y))"
  by (simp add: usize_add_def)

lemma usize_sub_Debug:
  "usize_sub Debug x y = (if unat x < unat y then Inl SubOverflow else Inr (x - y))"
  by (simp add: usize_sub_def)

lemma usize_add_no_overflow:
  "unat x + unat y < 2 ^ 32 \<Longrightarrow> usize_add b x y = Inr (x + y) \<and> unat (x + y) = unat x + unat y"
  by (auto simp: usize_add_def unat_word_ariths)

section \<open>Lemmas: ChunksExact\<close>

lemma chunks_exact_Inr:
  assumes "0 < n"
  shows "chunks_exact v n = Inr \<lparr> ce_v = take (length v - length v mod n) v,
                                   ce_rem = drop (length v - length v mod n) v,
                                   ce_chunk_size = n \<rparr>"
  using assms by (simp add: chunks_exact_def Let_def)

lemma ce_next_dvd:
  assumes "0 < ce_chunk_size it" "ce_chunk_size it dvd length (ce_v it)"
  shows "ce_next it =
           (if ce_v it = [] then None
            else Some (take (ce_chunk_size it) (ce_v it),
                       it\<lparr>ce_v := drop (ce_chunk_size it) (ce_v it)\<rparr>))"
  using assms by (auto simp: ce_next_def dest: dvd_imp_le)

lemma chunks_exact_parts:
  fixes v :: "'a list"
  assumes "0 < n"
  defines "fst_len \<equiv> length v - length v mod n"
  shows "n dvd length (take fst_len v)" "length (drop fst_len v) = length v mod n"
    "take fst_len v @ drop fst_len v = v"
proof -
  have eq: "fst_len = n * (length v div n)"
    by (simp add: fst_len_def minus_mod_eq_mult_div)
  have "fst_len \<le> length v" by (simp add: fst_len_def)
  then have "length (take fst_len v) = n * (length v div n)"
    by (simp add: eq [symmetric])
  then show "n dvd length (take fst_len v)" by simp
  show "length (drop fst_len v) = length v mod n"
    by (simp add: fst_len_def)
  show "take fst_len v @ drop fst_len v = v" by simp
qed

lemma chunks_remainder:
  "0 < length r \<Longrightarrow> length r < n \<Longrightarrow> chunks n r = [r]"
  by (simp add: chunks_short)

lemma chunks_exact_split:
  assumes "0 < n" "chunks_exact v n = Inr it"
  shows "ce_chunk_size it = n" "n dvd length (ce_v it)"
    "chunks n v = chunks n (ce_v it) @ (if ce_remainder it \<noteq> [] then [ce_remainder it] else [])"
proof -
  define fst_len where "fst_len = length v - length v mod n"
  have it: "it = \<lparr> ce_v = take fst_len v, ce_rem = drop fst_len v, ce_chunk_size = n \<rparr>"
    using assms chunks_exact_Inr [OF assms(1), of v] by (simp add: fst_len_def)
  note parts = chunks_exact_parts [OF assms(1), of v, folded fst_len_def]
  show "ce_chunk_size it = n" by (simp add: it)
  show "n dvd length (ce_v it)" using parts(1) by (simp add: it)
  have rem_short: "length (drop fst_len v) < n"
    using parts(2) assms(1) by simp
  have "chunks n v = chunks n (take fst_len v) @ chunks n (drop fst_len v)"
    using chunks_append_dvd [OF parts(1), of "drop fst_len v"] parts(3) by simp
  also have "chunks n (drop fst_len v)
               = (if drop fst_len v \<noteq> [] then [drop fst_len v] else [])"
    using rem_short chunks_remainder [of "drop fst_len v" n] by auto
  finally show "chunks n v = chunks n (ce_v it) @
                  (if ce_remainder it \<noteq> [] then [ce_remainder it] else [])"
    by (simp add: it ce_remainder_def)
qed

lemma unat_length_usize:
  "4 * length xs \<le> isize_max \<Longrightarrow> unat (word_of_nat (length xs) :: usize) = length xs"
  by (simp add: isize_max_def unat_of_nat)

lemma length_usize_eq_0:
  assumes fits: "4 * length xs \<le> isize_max"
  shows "(word_of_nat (length xs) :: usize) = 0 \<longleftrightarrow> xs = []"
proof
  assume "(word_of_nat (length xs) :: usize) = 0"
  then have "unat (word_of_nat (length xs) :: usize) = 0" by simp
  then show "xs = []" using unat_length_usize [OF fits] by simp
qed simp

section \<open>Lemmas: Vec\<close>

lemma vbuf_vec_push [simp]: "vbuf (vec_push v x) = vbuf v @ [x]"
  by (simp add: vec_push_def Let_def)

lemma vcap_vec_push_room:
  "length (vbuf v) < vcap v \<Longrightarrow> vcap (vec_push v x) = vcap v"
  by (simp add: vec_push_def Let_def)

lemma vec_push_within_cap:
  "length (vbuf v) \<le> vcap v \<Longrightarrow> length (vbuf (vec_push v x)) \<le> vcap (vec_push v x)"
  by (auto simp: vec_push_def Let_def)

lemma vec_with_capacity_Inr:
  "4 * n \<le> isize_max \<Longrightarrow> vec_with_capacity n = Inr \<lparr> vbuf = [], vcap = n \<rparr>"
  by (simp add: vec_with_capacity_def)

end
