(* ===== verification/Analyzer.thy ===== *)
theory Analyzer
  imports Rms Rust_Std
begin

text \<open>
  The exported operation \<open>analyze_audio_rms\<close> (\<open>src/src/core/wasm/src/lib.rs\<close>, lines
  67--109) and the initialisation hook \<open>init_panic_hook\<close> (lines 13--17). The body is
  split the way the code reads: the early return of line 78, the capacity computation of
  line 84 (\<open>num_chunks\<close>, in \<open>usize\<close> arithmetic of the chosen build profile), the
  \<open>for\<close> loop over \<open>chunks_exact\<close> (lines 92--97, \<open>push_chunks\<close>, a
  \<open>partial_function (option)\<close>: \<open>None\<close> would be a loop that never ends), the final
  short chunk (lines 100--104, \<open>push_remainder\<close>) and \<open>analyze_vec\<close>, which runs
  lines 84--104 and returns the \<open>Vec\<close> with its capacity. Every panic of the
  standard library calls in between is a \<open>panic\<close> value on the left.
  The lemmas show that the loop always terminates, that the result is the abstract
  partition \<open>chunks\<close> mapped through the reducer and the converter, for every
  arithmetic, when and only when a debug build panics, and that the precomputed
  capacity is never exceeded when it is computed without wrap-around.
\<close>

section \<open>Definitions\<close>

text \<open>
  \<open>init_panic_hook\<close> installs the console hook once when the crate is built with the
  feature \<open>console_error_panic_hook\<close>; \<open>set_once\<close> makes a second call a no-op.
  The state is whether the hook is installed.
\<close>

definition init_panic_hook :: "bool \<Rightarrow> bool \<Rightarrow> bool" where
  "init_panic_hook feature_enabled hook_installed =
     (if feature_enabled then True else hook_installed)"

text \<open>\<open>let num_chunks = (total_samples + chunk_size_samples - 1) / chunk_size_samples;\<close>\<close>

definition num_chunks :: "build \<Rightarrow> usize \<Rightarrow> usize \<Rightarrow> panic + usize" where
  "num_chunks b total_samples chunk_size_samples =
     (case usize_add b total_samples chunk_size_samples of
        Inl e \<Rightarrow> Inl e
      | Inr s \<Rightarrow> (case usize_sub b s 1 of
                   Inl e \<Rightarrow> Inl e
                 | Inr s' \<Rightarrow> usize_div s' chunk_size_samples))"

text \<open>\<open>for chunk in &mut chunks_iter { let rms = calculate_rms(chunk); dbfs_results.push(rms_to_dbfs(rms)); }\<close>\<close>

partial_function (option) push_chunks ::
  "('s, 'd) fops \<Rightarrow> 's chunks_exact_it \<Rightarrow> 's rvec \<Rightarrow> ('s chunks_exact_it \<times> 's rvec) option"
where
  "push_chunks ops chunks_iter dbfs_results =
     (case ce_next chunks_iter of
        None \<Rightarrow> Some (chunks_iter, dbfs_results)
      | Some (chunk, chunks_iter') \<Rightarrow>
          (let rms = calculate_rms ops chunk
           in push_chunks ops chunks_iter' (vec_push dbfs_results (rms_to_dbfs ops rms))))"

text \<open>\<open>let remainder = chunks_iter.remainder(); if !remainder.is_empty() { ... push ... }\<close>\<close>

definition push_remainder :: "('s, 'd) fops \<Rightarrow> 's chunks_exact_it \<Rightarrow> 's rvec \<Rightarrow> 's rvec" where
  "push_remainder ops chunks_iter dbfs_results =
     (let remainder = ce_remainder chunks_iter
      in if remainder \<noteq> []
         then (let rms = calculate_rms ops remainder
               in vec_push dbfs_results (rms_to_dbfs ops rms))
         else dbfs_results)"

text \<open>Lines 84--104: from the capacity computation to the filled \<open>Vec\<close>.\<close>

definition analyze_vec ::
  "build \<Rightarrow> ('s, 'd) fops \<Rightarrow> 's list \<Rightarrow> usize \<Rightarrow> usize \<Rightarrow> (panic + 's rvec) option"
where
  "analyze_vec b ops pcm_slice total_samples chunk_size_samples =
     (case num_chunks b total_samples chunk_size_samples of
        Inl e \<Rightarrow> Some (Inl e)
      | Inr n_chunks \<Rightarrow>
          (case vec_with_capacity (unat n_chunks) of
             Inl e \<Rightarrow> Some (Inl e)
           | Inr dbfs_results \<Rightarrow>
               (case chunks_exact pcm_slice (unat chunk_size_samples) of
                  Inl e \<Rightarrow> Some (Inl e)
                | Inr chunks_iter \<Rightarrow>
                    (case push_chunks ops chunks_iter dbfs_results of
                       None \<Rightarrow> None
                     | Some (chunks_iter', dbfs_results') \<Rightarrow>
                         Some (Inr (push_remainder ops chunks_iter' dbfs_results'))))))"

text \<open>
  The exported function. \<open>pcm_data.to_vec()\<close> copies the samples; the list is that copy.
  The result is the list of the returned \<open>Float32Array\<close>, or a panic, or \<open>None\<close> for a
  call that does not return.
\<close>

definition analyze_audio_rms ::
  "build \<Rightarrow> ('s, 'd) fops \<Rightarrow> 's list \<Rightarrow> usize \<Rightarrow> (panic + 's list) option"
where
  "analyze_audio_rms b ops pcm_data chunk_size_samples =
     (let pcm_vec = pcm_data;
          total_samples = (word_of_nat (length pcm_vec) :: usize)
      in if total_samples = 0 \<or> chunk_size_samples = 0 then Some (Inr [])
         else map_option (map_sum id vbuf)
                (analyze_vec b ops pcm_vec total_samples chunk_size_samples))"

text \<open>The effect of the loop on the \<open>Vec\<close>: one push per chunk, in order.\<close>

abbreviation push_all :: "('s, 'd) fops \<Rightarrow> 's rvec \<Rightarrow> 's list list \<Rightarrow> 's rvec" where
  "push_all ops \<equiv> foldl (\<lambda>v chunk. vec_push v (rms_to_dbfs ops (calculate_rms ops chunk)))"

section \<open>The loop\<close>

lemma vbuf_push_all [simp]:
  "vbuf (push_all ops v cs) = vbuf v @ map (\<lambda>c. rms_to_dbfs ops (calculate_rms ops c)) cs"
  by (induction cs arbitrary: v) auto

lemma vcap_push_all:
  "length (vbuf v) + length cs \<le> vcap v \<Longrightarrow> vcap (push_all ops v cs) = vcap v"
proof (induction cs arbitrary: v)
  case Nil
  then show ?case by simp
next
  case (Cons c cs)
  then have "length (vbuf v) < vcap v" by simp
  then have "vcap (vec_push v (rms_to_dbfs ops (calculate_rms ops c))) = vcap v"
    by (rule vcap_vec_push_room)
  with Cons show ?case by simp
qed

lemma push_chunks_exact:
  assumes "0 < ce_chunk_size it" "ce_chunk_size it dvd length (ce_v it)"
  shows "push_chunks ops it v =
           Some (it\<lparr>ce_v := []\<rparr>, push_all ops v (chunks (ce_chunk_size it) (ce_v it)))"
  using assms
proof (induction "length (ce_v it)" arbitrary: it v rule: less_induct)
  case less
  let ?n = "ce_chunk_size it"
  show ?case
  proof (cases "ce_v it = []")
    case True
    then show ?thesis
      using less.prems by (simp add: push_chunks.simps ce_next_dvd)
  next
    case False
    let ?it' = "it\<lparr>ce_v := drop ?n (ce_v it)\<rparr>"
    have le: "?n \<le> length (ce_v it)" using less.prems False by (auto dest: dvd_imp_le)
    have dvd': "?n dvd length (ce_v ?it')" using less.prems le by simp
    have "push_chunks ops ?it' v' = Some (?it'\<lparr>ce_v := []\<rparr>, push_all ops v' (chunks ?n (ce_v ?it')))"
      for v'
      using less.hyps [of ?it' v'] less.prems dvd' False by simp
    then show ?thesis
      using less.prems False
      by (simp add: push_chunks.simps [of ops it] ce_next_dvd chunks_step Let_def)
  qed
qed

section \<open>The capacity computation\<close>

lemma unat_plus_minus_1:
  fixes t n :: usize
  assumes "1 \<le> unat t + unat n"
  shows "unat (t + n - 1) = (unat t + unat n - 1) mod 2 ^ 32"
proof -
  have "t + n - 1 = word_of_nat (unat t + unat n - 1)"
    using assms by simp
  then show ?thesis by (simp add: unat_of_nat)
qed

lemma ceil_div_le:
  fixes t n :: nat
  assumes "1 \<le> t" "1 \<le> n"
  shows "(t + n - 1) div n \<le> t"
proof -
  have "t + n - 1 \<le> t * n"
    using assms by (cases t; cases n) (auto simp: algebra_simps)
  then have "(t + n - 1) div n \<le> t * n div n" by (rule div_le_mono)
  then show ?thesis using assms by simp
qed

lemma num_chunks_word_le_total:
  fixes t n :: usize
  assumes "t \<noteq> 0" "n \<noteq> 0"
  shows "unat ((t + n - 1) div n) \<le> unat t"
proof -
  have t: "1 \<le> unat t" and n: "1 \<le> unat n"
    using assms by (simp_all add: unat_gt_0 Suc_le_eq)
  have "unat ((t + n - 1) div n) = unat (t + n - 1) div unat n"
    by (simp add: unat_div)
  also have "\<dots> = ((unat t + unat n - 1) mod 2 ^ 32) div unat n"
    using t by (simp add: unat_plus_minus_1)
  also have "\<dots> \<le> unat t"
  proof (cases "unat t + unat n - 1 < 2 ^ 32")
    case True
    then show ?thesis using ceil_div_le [OF t n] by simp
  next
    case False
    have "unat n < 2 ^ 32" using unsigned_less [of n, where ?'a = nat] by simp
    then have "(unat t + unat n - 1) mod 2 ^ 32 = unat t + unat n - 1 - 2 ^ 32"
      using False unsigned_less [of t, where ?'a = nat] by (simp add: mod_if le_mod_geq)
    also have "\<dots> < unat t" using \<open>unat n < 2 ^ 32\<close> False by linarith
    finally show ?thesis by (meson div_le_dividend less_imp_le order_trans)
  qed
  finally show ?thesis .
qed

lemma num_chunks_Release:
  "n \<noteq> 0 \<Longrightarrow> num_chunks Release t n = Inr ((t + n - 1) div n)"
  by (simp add: num_chunks_def usize_div_def)

lemma num_chunks_Debug:
  assumes "t \<noteq> 0" "n \<noteq> 0"
  shows "num_chunks Debug t n =
           (if 2 ^ 32 \<le> unat t + unat n then Inl AddOverflow else Inr ((t + n - 1) div n))"
proof -
  have "1 \<le> unat t" using assms by (simp add: unat_gt_0 Suc_le_eq)
  moreover have "unat (t + n) = unat t + unat n" if "unat t + unat n < 2 ^ 32"
    using that by (simp add: unat_word_ariths)
  ultimately show ?thesis
    using assms
    by (auto simp: num_chunks_def usize_add_Debug usize_sub_Debug usize_div_def not_le)
qed

lemma unat_num_chunks_exact:
  fixes t n :: usize
  assumes "n \<noteq> 0" "1 \<le> unat t" "unat t + unat n \<le> 2 ^ 32"
  shows "unat ((t + n - 1) div n) = (unat t + unat n - 1) div unat n"
  using assms by (simp add: unat_div unat_plus_minus_1)

section \<open>The filled Vec\<close>

lemma analyze_vec_result:
  assumes nc: "num_chunks b t n = Inr nc" and cap: "4 * unat nc \<le> isize_max" and n: "n \<noteq> 0"
  shows "\<exists>v. analyze_vec b ops pcm t n = Some (Inr v)
           \<and> vbuf v = map (\<lambda>c. rms_to_dbfs ops (calculate_rms ops c)) (chunks (unat n) pcm)
           \<and> (length (chunks (unat n) pcm) \<le> unat nc \<longrightarrow> vcap v = unat nc)"
proof -
  have n0: "0 < unat n" using n by (simp add: unat_gt_0)
  obtain it where it: "chunks_exact pcm (unat n) = Inr it"
    using chunks_exact_Inr [OF n0, of pcm] by blast
  note split = chunks_exact_split [OF n0 it]
  let ?full = "chunks (unat n) (ce_v it)"
  let ?v0 = "\<lparr> vbuf = [], vcap = unat nc \<rparr> :: 's rvec"
  let ?v1 = "push_all ops ?v0 ?full"
  have loop: "push_chunks ops it ?v0 = Some (it\<lparr>ce_v := []\<rparr>, ?v1)"
    using push_chunks_exact [of it ops ?v0] split(1,2) n0 by simp
  define v where "v = push_remainder ops (it\<lparr>ce_v := []\<rparr>) ?v1"
  have run: "analyze_vec b ops pcm t n = Some (Inr v)"
    using nc cap it loop by (simp add: analyze_vec_def vec_with_capacity_Inr v_def)
  have buf: "vbuf v = map (\<lambda>c. rms_to_dbfs ops (calculate_rms ops c)) (chunks (unat n) pcm)"
    by (simp add: v_def push_remainder_def Let_def ce_remainder_def split(3))
  have capv: "vcap v = unat nc" if fits: "length (chunks (unat n) pcm) \<le> unat nc"
  proof -
    have "length ?full \<le> unat nc" using fits by (simp add: split(3))
    then have c1: "vcap ?v1 = unat nc" by (simp add: vcap_push_all)
    show ?thesis
    proof (cases "ce_remainder it = []")
      case True
      then show ?thesis using c1 by (simp add: v_def push_remainder_def ce_remainder_def)
    next
      case False
      then have "length (vbuf ?v1) < vcap ?v1" using fits c1 by (simp add: split(3))
      then show ?thesis
        using False c1 by (simp add: v_def push_remainder_def ce_remainder_def Let_def vcap_vec_push_room)
    qed
  qed
  show ?thesis using run buf capv by blast
qed

lemma analyze_audio_rms_early:
  "pcm = [] \<or> n = 0 \<Longrightarrow> 4 * length pcm \<le> isize_max \<Longrightarrow>
     analyze_audio_rms b ops pcm n = Some (Inr [])"
  by (auto simp: analyze_audio_rms_def length_usize_eq_0)

lemma analyze_audio_rms_body:
  assumes "pcm \<noteq> []" "n \<noteq> 0" "4 * length pcm \<le> isize_max"
    and nc: "num_chunks b (word_of_nat (length pcm)) n = Inr nc"
    and cap: "4 * unat nc \<le> isize_max"
  shows "analyze_audio_rms b ops pcm n
           = Some (Inr (map (\<lambda>c. rms_to_dbfs ops (calculate_rms ops c)) (chunks (unat n) pcm)))"
proof -
  obtain v where "analyze_vec b ops pcm (word_of_nat (length pcm)) n = Some (Inr v)"
    and "vbuf v = map (\<lambda>c. rms_to_dbfs ops (calculate_rms ops c)) (chunks (unat n) pcm)"
    using analyze_vec_result [OF nc cap assms(2)] by blast
  then show ?thesis using assms(1-3) by (simp add: analyze_audio_rms_def length_usize_eq_0)
qed

lemma analyze_audio_rms_Release_result:
  assumes "4 * length pcm \<le> isize_max"
  shows "analyze_audio_rms Release ops pcm n
           = Some (Inr (map (\<lambda>c. rms_to_dbfs ops (calculate_rms ops c)) (chunks (unat n) pcm)))"
proof (cases "pcm = [] \<or> n = 0")
  case True
  then show ?thesis using assms by (auto simp: analyze_audio_rms_early)
next
  case False
  let ?t = "word_of_nat (length pcm) :: usize"
  have t0: "?t \<noteq> 0" using False assms by (simp add: length_usize_eq_0)
  have "unat ((?t + n - 1) div n) \<le> length pcm"
    using num_chunks_word_le_total [OF t0] False assms by (simp add: unat_length_usize)
  then have "4 * unat ((?t + n - 1) div n) \<le> isize_max" using assms by linarith
  then show ?thesis
    using False assms by (intro analyze_audio_rms_body) (simp_all add: num_chunks_Release)
qed

lemma analyze_audio_rms_Debug_result:
  assumes "4 * length pcm \<le> isize_max"
  shows "analyze_audio_rms Debug ops pcm n =
           (if pcm \<noteq> [] \<and> n \<noteq> 0 \<and> 2 ^ 32 \<le> length pcm + unat n
            then Some (Inl AddOverflow)
            else Some (Inr (map (\<lambda>c. rms_to_dbfs ops (calculate_rms ops c)) (chunks (unat n) pcm))))"
proof (cases "pcm = [] \<or> n = 0")
  case True
  then show ?thesis using assms by (auto simp: analyze_audio_rms_early)
next
  case False
  let ?t = "word_of_nat (length pcm) :: usize"
  have t0: "?t \<noteq> 0" using False assms by (simp add: length_usize_eq_0)
  have ut: "unat ?t = length pcm" using assms by (rule unat_length_usize)
  show ?thesis
  proof (cases "2 ^ 32 \<le> length pcm + unat n")
    case True
    then have "num_chunks Debug ?t n = Inl AddOverflow"
      using num_chunks_Debug [OF t0] False ut by simp
    then show ?thesis
      using False True assms
      by (simp add: analyze_audio_rms_def analyze_vec_def length_usize_eq_0)
  next
    case no_overflow: False
    have "unat ((?t + n - 1) div n) \<le> length pcm"
      using num_chunks_word_le_total [OF t0] False ut by simp
    then have cap: "4 * unat ((?t + n - 1) div n) \<le> isize_max" using assms by linarith
    have nc: "num_chunks Debug ?t n = Inr ((?t + n - 1) div n)"
      using num_chunks_Debug [OF t0] False no_overflow ut by simp
    have ne: "pcm \<noteq> []" "n \<noteq> 0" using False by auto
    show ?thesis
      using analyze_audio_rms_body [OF ne assms nc cap] no_overflow by simp
  qed
qed

lemma push_chunks_Some:
  "0 < ce_chunk_size it \<Longrightarrow> \<exists>r. push_chunks ops it v = Some r"
proof (induction "length (ce_v it)" arbitrary: it v rule: less_induct)
  case less
  show ?case
  proof (cases "length (ce_v it) < ce_chunk_size it")
    case True
    then show ?thesis by (simp add: push_chunks.simps [of ops it] ce_next_def)
  next
    case False
    let ?it' = "it\<lparr>ce_v := drop (ce_chunk_size it) (ce_v it)\<rparr>"
    have "length (ce_v ?it') < length (ce_v it)" "0 < ce_chunk_size ?it'"
      using False less.prems by auto
    then have "\<exists>r. push_chunks ops ?it' v' = Some r" for v'
      using less.hyps by blast
    then show ?thesis
      using False by (simp add: push_chunks.simps [of ops it] ce_next_def Let_def)
  qed
qed

lemma analyze_vec_single_chunk:
  fixes pcm :: "'s list"
  assumes nc: "num_chunks b t n = Inr nc" and cap: "4 * unat nc \<le> isize_max"
    and short: "0 < length pcm" "length pcm < unat n"
  shows "analyze_vec b ops pcm t n =
           Some (Inr (vec_push \<lparr> vbuf = [], vcap = unat nc \<rparr> (rms_to_dbfs ops (calculate_rms ops pcm))))"
proof -
  have n0: "0 < unat n" using short by simp
  have it: "chunks_exact pcm (unat n) = Inr \<lparr> ce_v = [], ce_rem = pcm, ce_chunk_size = unat n \<rparr>"
    using chunks_exact_Inr [OF n0, of pcm] short by simp
  have loop: "push_chunks ops \<lparr> ce_v = [], ce_rem = pcm, ce_chunk_size = unat n \<rparr> v0
                = Some (\<lparr> ce_v = [], ce_rem = pcm, ce_chunk_size = unat n \<rparr>, v0)" for v0 :: "'s rvec"
    using push_chunks_exact [of "\<lparr> ce_v = [], ce_rem = pcm, ce_chunk_size = unat n \<rparr>" ops v0] n0
    by simp
  show ?thesis
    using nc cap it loop short
    by (simp add: analyze_vec_def vec_with_capacity_Inr push_remainder_def ce_remainder_def Let_def)
qed

section \<open>Properties of the exported operation\<close>

text \<open>
  C1: the whole contract of \<open>analyze_audio_rms\<close>, every branch, both build profiles, for
  every floating-point arithmetic: the call returns; in a release build it returns the
  decibel value of every chunk of the partition \<open>chunks\<close> in order (the empty list when
  the buffer is empty or the chunk size is 0); a debug build returns the same except
  when \<open>total_samples + chunk_size_samples\<close> exceeds \<open>usize::MAX\<close>, where line 84
  panics with an arithmetic overflow. The hypothesis is that the copied buffer fits in
  the wasm32 address space, as every \<open>Vec<f32>\<close> does.
\<close>

theorem analyze_audio_rms_spec:
  assumes "4 * length pcm \<le> isize_max"
  shows "analyze_audio_rms b ops pcm n =
           (if b = Debug \<and> pcm \<noteq> [] \<and> n \<noteq> 0 \<and> 2 ^ 32 \<le> length pcm + unat n
            then Some (Inl AddOverflow)
            else Some (Inr (map (\<lambda>c. rms_to_dbfs ops (calculate_rms ops c)) (chunks (unat n) pcm))))"
proof (cases b)
  case Release
  then show ?thesis using analyze_audio_rms_Release_result [OF assms] by simp
next
  case Debug
  show ?thesis unfolding Debug by (simp add: analyze_audio_rms_Debug_result [OF assms])
qed

theorem analyze_audio_rms_spec_witness:
  "4 * length [1, 1, 1 :: real] \<le> isize_max
   \<and> analyze_audio_rms Release real_ops [1, 1, 1] 2 = Some (Inr [0, 0])"
proof -
  have fits: "4 * length [1, 1, 1 :: real] \<le> isize_max" by (simp add: isize_max_def)
  have "chunks 2 [1, 1, 1 :: real] = [[1, 1], [1]]"
    by (simp add: chunks_step chunks_short)
  moreover have "calculate_rms real_ops [1, 1 :: real] = 1" "calculate_rms real_ops [1 :: real] = 1"
    by (simp_all add: calculate_rms_real)
  ultimately show ?thesis
    using fits analyze_audio_rms_spec [OF fits, of Release real_ops 2] by simp
qed

text \<open>
  C2: the spec's length law: in a release build the result has
  \<open>ceil (total_samples / chunk_size)\<close> elements, and none when the chunk size is 0.
\<close>

theorem analyze_audio_rms_length:
  assumes "4 * length pcm \<le> isize_max"
  shows "\<exists>r. analyze_audio_rms Release ops pcm n = Some (Inr r)
           \<and> length r = (if unat n = 0 then 0 else (length pcm + unat n - 1) div unat n)"
  by (simp add: analyze_audio_rms_Release_result [OF assms] length_chunks_helper)

lemma analyze_audio_rms_example:
  "analyze_audio_rms Release real_ops [1, 1, 1] 2 = Some (Inr [0, 0])"
proof -
  have fits: "4 * length [1, 1, 1 :: real] \<le> isize_max" by (simp add: isize_max_def)
  have "chunks 2 [1, 1, 1 :: real] = [[1, 1], [1]]"
    by (simp add: chunks_step chunks_short)
  moreover have "calculate_rms real_ops [1, 1 :: real] = 1" "calculate_rms real_ops [1 :: real] = 1"
    by (simp_all add: calculate_rms_real)
  ultimately show ?thesis
    by (simp add: analyze_audio_rms_Release_result [OF fits])
qed

theorem analyze_audio_rms_length_witness:
  "4 * length [1, 1, 1 :: real] \<le> isize_max
   \<and> (\<exists>r. analyze_audio_rms Release real_ops [1, 1, 1] 2 = Some (Inr r) \<and> length r = 2)"
proof -
  have fits: "4 * length [1, 1, 1 :: real] \<le> isize_max" by (simp add: isize_max_def)
  obtain r where run: "analyze_audio_rms Release real_ops [1, 1, 1] 2 = Some (Inr r)"
    and len: "length r = (if unat (2::usize) = 0 then 0
                          else (length [1, 1, 1 :: real] + unat (2::usize) - 1) div unat (2::usize))"
    using analyze_audio_rms_length [OF fits, of real_ops 2] by blast
  have "unat (2::usize) = 2" by simp
  with len have "length r = 2" by simp
  with fits run show ?thesis by blast
qed

text \<open>
  C3: order and correspondence: element \<open>i\<close> of the result is the decibel value of the
  \<open>i\<close>-th contiguous block \<open>pcm[i * n .. i * n + n)\<close> of the input (cut at its end).
\<close>

theorem analyze_audio_rms_nth:
  assumes "4 * length pcm \<le> isize_max"
    and "analyze_audio_rms Release ops pcm n = Some (Inr r)" and "i < length r"
  shows "r ! i = rms_to_dbfs ops (calculate_rms ops (take (unat n) (drop (i * unat n) pcm)))"
proof -
  have "r = map (\<lambda>c. rms_to_dbfs ops (calculate_rms ops c)) (chunks (unat n) pcm)"
    using assms(2) by (simp add: analyze_audio_rms_Release_result [OF assms(1)])
  then show ?thesis using assms(3) by (simp add: nth_chunks_helper)
qed

theorem analyze_audio_rms_nth_witness:
  "4 * length [1, 1, 1 :: real] \<le> isize_max
   \<and> analyze_audio_rms Release real_ops [1, 1, 1] 2 = Some (Inr [0, 0]) \<and> 1 < length [0, 0 :: real]
   \<and> [0, 0 :: real] ! 1
       = rms_to_dbfs real_ops (calculate_rms real_ops (take (unat (2::usize)) (drop (1 * unat (2::usize)) [1, 1, 1])))"
proof -
  have fits: "4 * length [1, 1, 1 :: real] \<le> isize_max" by (simp add: isize_max_def)
  have run: "analyze_audio_rms Release real_ops [1, 1, 1] 2 = Some (Inr [0, 0])"
    by (rule analyze_audio_rms_example)
  have "1 < length [0, 0 :: real]" by simp
  with fits run show ?thesis using analyze_audio_rms_nth [OF fits run] by blast
qed

text \<open>
  C4: the early return of line 78 is exact: in either build, the result is the empty
  array precisely when the buffer is empty or the chunk size is 0; a non-empty buffer
  with a non-zero chunk size never yields an empty array.
\<close>

theorem analyze_audio_rms_empty_iff:
  assumes "4 * length pcm \<le> isize_max"
  shows "analyze_audio_rms b ops pcm n = Some (Inr []) \<longleftrightarrow> pcm = [] \<or> n = 0"
proof (cases "pcm = [] \<or> n = 0")
  case True
  then show ?thesis using assms by (simp add: analyze_audio_rms_early)
next
  case False
  then have "chunks (unat n) pcm \<noteq> []"
    by (simp add: chunks_step unat_gt_0)
  then show ?thesis
    using False
    by (cases b) (simp_all add: analyze_audio_rms_Release_result [OF assms]
                                analyze_audio_rms_Debug_result [OF assms])
qed

theorem analyze_audio_rms_empty_iff_witness:
  "4 * length ([] :: real list) \<le> isize_max \<and> analyze_audio_rms Debug real_ops [] 10 = Some (Inr [])"
  using analyze_audio_rms_empty_iff [of "[] :: real list" Debug real_ops 10]
  by (simp add: isize_max_def)

text \<open>
  C5: \<open>Vec::with_capacity(num_chunks)\<close> is exact: whenever \<open>total + chunk\<close> stays
  below \<open>2^32\<close> (so that line 84 neither wraps nor panics, in either build), the finished
  \<open>Vec\<close> holds exactly \<open>num_chunks\<close> values and its capacity was never grown, so
  the loop never reallocates.
\<close>

theorem analyze_vec_exact_capacity:
  assumes "4 * length pcm \<le> isize_max" "pcm \<noteq> []" "n \<noteq> 0"
    and "length pcm + unat n < 2 ^ 32"
  shows "\<exists>v. analyze_vec b ops pcm (word_of_nat (length pcm)) n = Some (Inr v)
           \<and> vcap v = length (vbuf v)"
proof -
  let ?t = "word_of_nat (length pcm) :: usize"
  let ?nc = "(?t + n - 1) div n"
  have t0: "?t \<noteq> 0" using assms by (simp add: length_usize_eq_0)
  have ut: "unat ?t = length pcm" using assms(1) by (rule unat_length_usize)
  have "num_chunks b ?t n = Inr ?nc"
    using assms(3,4) ut num_chunks_Release [OF assms(3), of ?t] num_chunks_Debug [OF t0 assms(3)]
    by (cases b) auto
  moreover have exact: "unat ?nc = length (chunks (unat n) pcm)"
    using unat_num_chunks_exact [of n ?t] assms(2-4) ut
    by (simp add: length_chunks_helper unat_gt_0 Suc_le_eq)
  moreover have "4 * unat ?nc \<le> isize_max"
    using num_chunks_word_le_total [OF t0 assms(3)] ut assms(1) by linarith
  ultimately obtain v where "analyze_vec b ops pcm ?t n = Some (Inr v)"
    and "vbuf v = map (\<lambda>c. rms_to_dbfs ops (calculate_rms ops c)) (chunks (unat n) pcm)"
    and "vcap v = unat ?nc"
    using analyze_vec_result [of b ?t n ?nc ops pcm] assms(3) by auto
  then show ?thesis using exact by simp
qed

theorem analyze_vec_exact_capacity_witness:
  "4 * length [1, 1, 1 :: real] \<le> isize_max \<and> [1, 1, 1 :: real] \<noteq> [] \<and> (2::usize) \<noteq> 0
   \<and> length [1, 1, 1 :: real] + unat (2::usize) < 2 ^ 32
   \<and> (\<exists>v. analyze_vec Release real_ops [1, 1, 1] (word_of_nat (length [1, 1, 1 :: real])) 2
             = Some (Inr v) \<and> vcap v = length (vbuf v))"
proof -
  have h: "4 * length [1, 1, 1 :: real] \<le> isize_max" "[1, 1, 1 :: real] \<noteq> []" "(2::usize) \<noteq> 0"
    "length [1, 1, 1 :: real] + unat (2::usize) < 2 ^ 32"
    by (simp_all add: isize_max_def)
  show ?thesis using h analyze_vec_exact_capacity [OF h, of Release real_ops] by blast
qed

text \<open>
  C6: bounds of line 84 in a release build: for a non-empty buffer and a non-zero chunk
  size the capacity is computed without a panic, never exceeds the number of samples
  (so \<open>Vec::with_capacity\<close> cannot overflow), and is \<open>ceil (total / chunk)\<close>
  whenever \<open>total + chunk\<close> does not wrap around.
\<close>

theorem num_chunks_release_bounds:
  assumes "t \<noteq> 0" "n \<noteq> 0"
  shows "\<exists>nc. num_chunks Release t n = Inr nc \<and> unat nc \<le> unat t
           \<and> (unat t + unat n \<le> 2 ^ 32 \<longrightarrow> unat nc = (unat t + unat n - 1) div unat n)"
proof -
  have "1 \<le> unat t" using assms(1) by (simp add: unat_gt_0 Suc_le_eq)
  then show ?thesis
    using num_chunks_Release [OF assms(2)] num_chunks_word_le_total [OF assms]
      unat_num_chunks_exact [OF assms(2)] by auto
qed

theorem num_chunks_release_bounds_witness:
  "(3::usize) \<noteq> 0 \<and> (2::usize) \<noteq> 0
   \<and> (\<exists>nc. num_chunks Release 3 2 = Inr nc \<and> unat nc \<le> 3 \<and> unat nc = 2)"
  using num_chunks_release_bounds [of 3 2] by simp

text \<open>
  C18: the capacity of line 84 wraps around in a release build: when
  \<open>total + chunk > 2^32\<close> (the buffer is then shorter than one chunk) the computed capacity
  is 0, so \<open>Vec::with_capacity\<close> reserves nothing and the single \<open>push\<close> reallocates
  (to the minimum capacity 4), against the intent of lines 83--85; the returned values
  are still right (C1).
\<close>

theorem release_capacity_wraps:
  assumes "4 * length pcm \<le> isize_max" "pcm \<noteq> []" "2 ^ 32 < length pcm + unat n"
  shows "num_chunks Release (word_of_nat (length pcm)) n = Inr 0
         \<and> (\<exists>v. analyze_vec Release ops pcm (word_of_nat (length pcm)) n = Some (Inr v)
               \<and> length (vbuf v) = 1 \<and> vcap v = 4)"
proof -
  let ?t = "word_of_nat (length pcm) :: usize"
  have ut: "unat ?t = length pcm" using assms(1) by (rule unat_length_usize)
  have lp: "length pcm < 2 ^ 29" using assms(1) by (simp add: isize_max_def)
  have un: "unat n < 2 ^ 32" using unsigned_less [of n, where ?'a = nat] by simp
  have n0: "n \<noteq> 0" using assms(3) lp by (auto simp: unat_eq_zero)
  have short: "length pcm < unat n"
  proof -
    have "(4294967296::nat) < length pcm + unat n" "length pcm < 536870912"
      using assms(3) lp by simp_all
    then show ?thesis by linarith
  qed
  have one: "1 \<le> unat ?t + unat n" using assms(2) ut by (simp add: Suc_le_eq)
  have "unat ((?t + n - 1) div n) = ((length pcm + unat n - 1) mod 2 ^ 32) div unat n"
    by (simp add: unat_div unat_plus_minus_1 [OF one] ut)
  also have "(length pcm + unat n - 1) mod 2 ^ 32 = length pcm + unat n - 1 - 2 ^ 32"
    using assms(3) lp un by (simp add: mod_if le_mod_geq)
  also have "(length pcm + unat n - 1 - 2 ^ 32) div unat n = 0"
    using short un by simp
  finally have "(?t + n - 1) div n = 0" by (simp add: unat_eq_zero)
  then have nc: "num_chunks Release ?t n = Inr 0"
    using num_chunks_Release [OF n0, of ?t] by simp
  have "analyze_vec Release ops pcm ?t n =
          Some (Inr (vec_push \<lparr> vbuf = [], vcap = 0 \<rparr> (rms_to_dbfs ops (calculate_rms ops pcm))))"
    using analyze_vec_single_chunk [OF nc _ _ short, of ops] assms(2) by simp
  then show ?thesis using nc by (simp add: vec_push_def)
qed

theorem release_capacity_wraps_witness:
  "4 * length [1/2, 1/2 :: real] \<le> isize_max \<and> [1/2, 1/2 :: real] \<noteq> []
   \<and> 2 ^ 32 < length [1/2, 1/2 :: real] + unat (4294967295 :: usize)
   \<and> num_chunks Release (word_of_nat (length [1/2, 1/2 :: real])) 4294967295 = Inr 0"
proof -
  have h: "4 * length [1/2, 1/2 :: real] \<le> isize_max" "[1/2, 1/2 :: real] \<noteq> []"
    "2 ^ 32 < length [1/2, 1/2 :: real] + unat (4294967295 :: usize)"
    by (simp_all add: isize_max_def)
  show ?thesis using h release_capacity_wraps [OF h, of real_ops] by blast
qed

end
