(* ===== verification/Loop_Semantics.thy ===== *)
theory Loop_Semantics
  imports Analyzer
begin

text \<open>
  A small-step semantics of the \<open>for\<close> loop of \<open>analyze_audio_rms\<close>
  (\<open>src/src/core/wasm/src/lib.rs\<close>, lines 94--97), beside the big-step
  \<open>partial_function\<close> \<open>push_chunks\<close> of the theory \<open>Analyzer\<close>. The state of the loop is
  the \<open>ChunksExact\<close> iterator and the result \<open>Vec\<close>; one step is one iteration, labelled
  with the chunk that \<open>next\<close> yields and \<open>calculate_rms\<close> reads; a run is a sequence
  of steps with its trace of chunks; the loop exits in a state where \<open>next\<close> returns
  \<open>None\<close>. The lemmas show that the two semantics agree, that every run from a state
  with a positive chunk size reaches the exit and that no run is infinite, an invariant
  of every run proved by rule induction (what has been pushed is the dBFS value of what
  has been consumed), and that the trace of the complete loop, followed by the remainder,
  is the partition \<open>chunks\<close> of the input: every sample is read once, in order.
\<close>

section \<open>States, steps and runs\<close>

type_synonym 's loop_state = "'s chunks_exact_it \<times> 's rvec"

text \<open>One iteration: \<open>next\<close> yields \<open>chunk\<close>; its dBFS value is pushed.\<close>

inductive loop_step :: "('s, 'd) fops \<Rightarrow> 's loop_state \<Rightarrow> 's list \<Rightarrow> 's loop_state \<Rightarrow> bool"
  for ops
where
  iter: "ce_next it = Some (chunk, it') \<Longrightarrow>
           loop_step ops (it, v) chunk (it', vec_push v (rms_to_dbfs ops (calculate_rms ops chunk)))"

inductive loop_run :: "('s, 'd) fops \<Rightarrow> 's loop_state \<Rightarrow> 's list list \<Rightarrow> 's loop_state \<Rightarrow> bool"
  for ops
where
  run_nil: "loop_run ops s [] s"
| run_cons: "loop_step ops s c s' \<Longrightarrow> loop_run ops s' cs s'' \<Longrightarrow> loop_run ops s (c # cs) s''"

text \<open>The loop exits when \<open>next\<close> returns \<open>None\<close>.\<close>

definition loop_exit :: "'s loop_state \<Rightarrow> bool" where
  "loop_exit s \<longleftrightarrow> ce_next (fst s) = None"

code_pred loop_step .

code_pred loop_run .

inductive_simps loop_step_simps: "loop_step ops (it, v) c s'"

inductive_cases loop_stepE: "loop_step ops s c s'"

inductive_simps loop_run_Nil: "loop_run ops s [] s'"

inductive_simps loop_run_Cons: "loop_run ops s (c # cs) s'"

section \<open>The iterator step\<close>

lemma ce_next_None_iff: "ce_next it = None \<longleftrightarrow> length (ce_v it) < ce_chunk_size it"
  by (simp add: ce_next_def)

lemma ce_next_SomeD:
  assumes "ce_next it = Some (c, it')"
  shows "c = take (ce_chunk_size it) (ce_v it)" "length c = ce_chunk_size it"
    "ce_v it = c @ ce_v it'" "ce_chunk_size it' = ce_chunk_size it" "ce_rem it' = ce_rem it"
  using assms by (auto simp: ce_next_def split: if_splits)

lemma loop_step_decreases:
  assumes "loop_step ops s c s'" "0 < ce_chunk_size (fst s)"
  shows "ce_chunk_size (fst s') = ce_chunk_size (fst s)
         \<and> length (ce_v (fst s')) < length (ce_v (fst s))"
  using assms
proof cases
  case (iter it it' v)
  note d = ce_next_SomeD [OF iter(3)]
  show ?thesis using d(2-4) assms(2) by (simp add: iter)
qed

lemma loop_step_deterministic:
  "loop_step ops s c s1 \<Longrightarrow> loop_step ops s c' s2 \<Longrightarrow> c' = c \<and> s2 = s1"
  by (auto elim!: loop_stepE)

lemma loop_exit_no_step: "loop_exit s \<Longrightarrow> \<not> loop_step ops s c s'"
  by (auto simp: loop_exit_def elim: loop_stepE)

section \<open>Runs\<close>

lemma loop_run_push_chunks:
  "loop_run ops s cs s' \<Longrightarrow> loop_exit s' \<Longrightarrow> push_chunks ops (fst s) (snd s) = Some s'"
proof (induction rule: loop_run.induct)
  case (run_nil s)
  then show ?case
    by (cases s) (simp add: loop_exit_def push_chunks.simps)
next
  case (run_cons s c s' cs s'')
  from run_cons.hyps(1) show ?case
  proof cases
    case (iter it it' v)
    then show ?thesis
      using run_cons.IH run_cons.prems by (simp add: push_chunks.simps [of ops it])
  qed
qed

lemma loop_run_exists:
  "0 < ce_chunk_size it \<Longrightarrow> \<exists>cs s'. loop_run ops (it, v) cs s' \<and> loop_exit s'"
proof (induction "length (ce_v it)" arbitrary: it v rule: less_induct)
  case less
  show ?case
  proof (cases "ce_next it")
    case None
    then have "loop_run ops (it, v) [] (it, v) \<and> loop_exit (it, v)"
      by (simp add: loop_run.run_nil loop_exit_def)
    then show ?thesis by blast
  next
    case (Some r)
    then obtain c it' where r: "ce_next it = Some (c, it')" by (cases r) auto
    let ?v' = "vec_push v (rms_to_dbfs ops (calculate_rms ops c))"
    have step: "loop_step ops (it, v) c (it', ?v')" using r by (rule loop_step.iter)
    have "ce_chunk_size it' = ce_chunk_size it \<and> length (ce_v it') < length (ce_v it)"
      using loop_step_decreases [OF step] less.prems by simp
    then obtain cs s' where "loop_run ops (it', ?v') cs s'" "loop_exit s'"
      using less.hyps [of it' ?v'] less.prems by auto
    then show ?thesis using step loop_run.run_cons by blast
  qed
qed

text \<open>Along a run the chunk size and the remainder do not change, the consumed input is the
  concatenation of the trace, every chunk of the trace is full, and the \<open>Vec\<close> has grown by
  the dBFS values of the trace, in order.\<close>

lemma loop_run_inv:
  "loop_run ops s cs s' \<Longrightarrow> 0 < ce_chunk_size (fst s) \<Longrightarrow>
     ce_chunk_size (fst s') = ce_chunk_size (fst s) \<and> ce_rem (fst s') = ce_rem (fst s)
     \<and> ce_v (fst s) = concat cs @ ce_v (fst s')
     \<and> list_all (\<lambda>c. length c = ce_chunk_size (fst s)) cs
     \<and> vbuf (snd s') = vbuf (snd s) @ map (\<lambda>c. rms_to_dbfs ops (calculate_rms ops c)) cs"
proof (induction rule: loop_run.induct)
  case (run_nil s)
  then show ?case by simp
next
  case (run_cons s c s' cs s'')
  from run_cons.hyps(1) show ?case
  proof cases
    case (iter it it' v)
    note d = ce_next_SomeD [OF iter(3)]
    have "0 < ce_chunk_size (fst s')" using run_cons.prems d(4) by (simp add: iter)
    then show ?thesis using run_cons.IH d(2-5) by (simp add: iter)
  qed
qed

lemma run_trace_length_ge:
  assumes "\<forall>i. \<exists>c. loop_step ops (f i) c (f (Suc i))" "0 < ce_chunk_size (fst (f 0))"
  shows "ce_chunk_size (fst (f i)) = ce_chunk_size (fst (f 0))
         \<and> length (ce_v (fst (f i))) + i \<le> length (ce_v (fst (f 0)))"
proof (induction i)
  case 0
  then show ?case by simp
next
  case (Suc i)
  obtain c where "loop_step ops (f i) c (f (Suc i))" using assms(1) by blast
  then have "ce_chunk_size (fst (f (Suc i))) = ce_chunk_size (fst (f i))
             \<and> length (ce_v (fst (f (Suc i)))) < length (ce_v (fst (f i)))"
    using Suc.IH assms(2) by (intro loop_step_decreases) simp_all
  then show ?case using Suc.IH by simp
qed

lemma no_infinite_run:
  assumes "0 < ce_chunk_size (fst s)"
  shows "\<not> (\<exists>f. f 0 = s \<and> (\<forall>i. \<exists>c. loop_step ops (f i) c (f (Suc i))))"
proof
  assume "\<exists>f. f 0 = s \<and> (\<forall>i. \<exists>c. loop_step ops (f i) c (f (Suc i)))"
  then obtain f where f0: "f 0 = s" and steps: "\<forall>i. \<exists>c. loop_step ops (f i) c (f (Suc i))"
    by blast
  let ?L = "length (ce_v (fst s))"
  have "length (ce_v (fst (f (Suc ?L)))) + Suc ?L \<le> ?L"
    using run_trace_length_ge [OF steps, of "Suc ?L"] assms f0 by simp
  then show False by simp
qed

lemma chunks_concat_full:
  "0 < n \<Longrightarrow> list_all (\<lambda>c. length c = n) cs \<Longrightarrow> chunks n (concat cs) = cs"
proof (induction cs)
  case Nil
  then show ?case by simp
next
  case (Cons c cs)
  then have "c \<noteq> []" by auto
  then show ?case using Cons by (simp add: chunks_step)
qed

lemma length_concat_full:
  "list_all (\<lambda>c. length c = n) cs \<Longrightarrow> length (concat cs) = n * length cs"
  by (induction cs) auto

lemma loop_run_cap:
  "loop_run ops s cs s' \<Longrightarrow> length (vbuf (snd s)) \<le> vcap (snd s) \<Longrightarrow>
     length (vbuf (snd s')) \<le> vcap (snd s')"
proof (induction rule: loop_run.induct)
  case (run_nil s)
  then show ?case .
next
  case (run_cons s c s' cs s'')
  from run_cons.hyps(1) show ?case
  proof cases
    case (iter it it' v)
    then show ?thesis
      using run_cons.IH run_cons.prems vec_push_within_cap [of v "rms_to_dbfs ops (calculate_rms ops c)"]
      by simp
  qed
qed

lemma loop_exit_dvd_empty:
  assumes "loop_exit s" "0 < n" "n dvd length (ce_v (fst s0))" "ce_chunk_size (fst s) = n"
    and "ce_v (fst s0) = concat cs @ ce_v (fst s)" "list_all (\<lambda>c. length c = n) cs"
  shows "ce_v (fst s) = []"
proof -
  have short: "length (ce_v (fst s)) < n"
    using assms(1,4) by (simp add: loop_exit_def ce_next_None_iff)
  have "length (ce_v (fst s0)) = n * length cs + length (ce_v (fst s))"
    using assms(5) length_concat_full [OF assms(6)] by simp
  then have "n dvd length (ce_v (fst s))"
    using assms(3) by (simp add: dvd_add_right_iff)
  then show ?thesis using short by (auto dest: dvd_imp_le)
qed

section \<open>Properties of the loop\<close>

text \<open>
  C22: the invariant of the loop, by rule induction over runs: along every run from an
  iterator with a positive chunk size the chunk size and the remainder are unchanged, the
  samples consumed so far are the concatenation of the chunks handed to
  \<open>calculate_rms\<close>, each of them full, the \<open>Vec\<close> holds the dBFS values of those chunks
  in order after what it held before, and it stays within its capacity.
\<close>

theorem loop_invariant:
  assumes "loop_run ops (it, v) cs (it', v')" "0 < ce_chunk_size it"
    and "length (vbuf v) \<le> vcap v"
  shows "ce_chunk_size it' = ce_chunk_size it \<and> ce_rem it' = ce_rem it
         \<and> ce_v it = concat cs @ ce_v it'
         \<and> list_all (\<lambda>c. length c = ce_chunk_size it) cs
         \<and> vbuf v' = vbuf v @ map (\<lambda>c. rms_to_dbfs ops (calculate_rms ops c)) cs
         \<and> length (vbuf v') \<le> vcap v'"
  using loop_run_inv [OF assms(1)] loop_run_cap [OF assms(1)] assms(2,3) by simp

theorem loop_invariant_witness:
  "loop_run real_ops (\<lparr> ce_v = [1, 2, 3, 4 :: real], ce_rem = [5], ce_chunk_size = 2 \<rparr>,
                      \<lparr> vbuf = [], vcap = 3 \<rparr>) [[1, 2]]
     (\<lparr> ce_v = [3, 4], ce_rem = [5], ce_chunk_size = 2 \<rparr>,
      vec_push \<lparr> vbuf = [], vcap = 3 \<rparr> (rms_to_dbfs real_ops (calculate_rms real_ops [1, 2])))
   \<and> 0 < ce_chunk_size \<lparr> ce_v = [1, 2, 3, 4 :: real], ce_rem = [5], ce_chunk_size = 2 \<rparr>
   \<and> length (vbuf \<lparr> vbuf = [] :: real list, vcap = 3 \<rparr>) \<le> vcap \<lparr> vbuf = [] :: real list, vcap = 3 \<rparr>
   \<and> [1, 2, 3, 4 :: real] = concat [[1, 2]] @ [3, 4]
   \<and> length (vbuf (vec_push \<lparr> vbuf = [], vcap = 3 \<rparr>
                      (rms_to_dbfs real_ops (calculate_rms real_ops [1, 2 :: real])))) \<le> 3"
proof -
  let ?it = "\<lparr> ce_v = [1, 2, 3, 4 :: real], ce_rem = [5], ce_chunk_size = 2 \<rparr>"
  let ?it' = "\<lparr> ce_v = [3, 4 :: real], ce_rem = [5], ce_chunk_size = 2 \<rparr>"
  let ?v = "\<lparr> vbuf = [], vcap = 3 \<rparr> :: real rvec"
  let ?v' = "vec_push ?v (rms_to_dbfs real_ops (calculate_rms real_ops [1, 2]))"
  have run: "loop_run real_ops (?it, ?v) [[1, 2]] (?it', ?v')"
    by (simp add: loop_run_Cons loop_run_Nil loop_step_simps ce_next_def)
  have "vcap ?v' = 3" by (simp add: vec_push_def)
  then show ?thesis using run loop_invariant [OF run] by simp
qed

text \<open>
  C23: every sample is handed to \<open>calculate_rms\<close> exactly once, in order: for the
  iterator that \<open>chunks_exact\<close> builds on the input, the trace of the complete loop
  followed by the non-empty remainder is the partition \<open>chunks\<close> of the input, and the
  \<open>Vec\<close> receives the dBFS values of the loop's chunks in that order.
\<close>

theorem loop_trace_partition:
  assumes "chunks_exact pcm n = Inr it" "loop_run ops (it, v) cs s'" "loop_exit s'"
  shows "cs @ (if ce_remainder (fst s') \<noteq> [] then [ce_remainder (fst s')] else []) = chunks n pcm
         \<and> vbuf (snd s') = vbuf v @ map (\<lambda>c. rms_to_dbfs ops (calculate_rms ops c)) cs"
proof -
  have n: "0 < n" using assms(1) by (cases n) (simp_all add: chunks_exact_def)
  note split = chunks_exact_split [OF n assms(1)]
  have inv: "ce_chunk_size (fst s') = n" "ce_rem (fst s') = ce_rem it"
    "ce_v it = concat cs @ ce_v (fst s')" "list_all (\<lambda>c. length c = n) cs"
    "vbuf (snd s') = vbuf v @ map (\<lambda>c. rms_to_dbfs ops (calculate_rms ops c)) cs"
    using loop_run_inv [OF assms(2)] split(1) n by simp_all
  have "ce_v (fst s') = []"
    using loop_exit_dvd_empty [of s' n "(it, v)" cs] assms(3) n split(2) inv(1,3,4) by simp
  then have "chunks n (ce_v it) = cs" using inv(3,4) chunks_concat_full [OF n] by simp
  then show ?thesis using split(3) inv(2,5) by (simp add: ce_remainder_def)
qed

theorem loop_trace_partition_witness:
  "chunks_exact [1, 2, 3 :: real] 2 = Inr \<lparr> ce_v = [1, 2], ce_rem = [3], ce_chunk_size = 2 \<rparr>
   \<and> loop_run real_ops (\<lparr> ce_v = [1, 2 :: real], ce_rem = [3], ce_chunk_size = 2 \<rparr>,
                       \<lparr> vbuf = [], vcap = 2 \<rparr>) [[1, 2]]
       (\<lparr> ce_v = [], ce_rem = [3], ce_chunk_size = 2 \<rparr>,
        vec_push \<lparr> vbuf = [], vcap = 2 \<rparr> (rms_to_dbfs real_ops (calculate_rms real_ops [1, 2])))
   \<and> [[1, 2], [3]] = chunks 2 [1, 2, 3 :: real]"
proof -
  let ?it = "\<lparr> ce_v = [1, 2 :: real], ce_rem = [3], ce_chunk_size = 2 \<rparr>"
  let ?v = "\<lparr> vbuf = [], vcap = 2 \<rparr> :: real rvec"
  let ?s = "(\<lparr> ce_v = [], ce_rem = [3], ce_chunk_size = 2 \<rparr> :: real chunks_exact_it,
             vec_push ?v (rms_to_dbfs real_ops (calculate_rms real_ops [1, 2])))"
  have ce: "chunks_exact [1, 2, 3 :: real] 2 = Inr ?it" by (simp add: chunks_exact_def)
  have run: "loop_run real_ops (?it, ?v) [[1, 2]] ?s"
    by (simp add: loop_run_Cons loop_run_Nil loop_step_simps ce_next_def)
  have "loop_exit ?s" by (simp add: loop_exit_def ce_next_def)
  then show ?thesis
    using ce run loop_trace_partition [OF ce run] by (simp add: ce_remainder_def)
qed

end
