(* ===== verification/Special_Values.thy ===== *)
theory Special_Values
  imports Analyzer
begin

text \<open>
  A second instance of the arithmetic interface \<open>fops\<close>, \<open>ieee_ops\<close>, that adds the special
  values of IEEE-754 to exact arithmetic: a value is a finite real, \<open>+inf\<close>, \<open>-inf\<close> or
  NaN, and each operation follows the IEEE rules for them (NaN propagates through
  \<open>+\<close>, \<open>*\<close>, \<open>/\<close>, \<open>sqrt\<close> and \<open>log10\<close>; \<open>inf - inf\<close>, \<open>0 * inf\<close>, \<open>sqrt\<close> and
  \<open>log10\<close> of a negative number are NaN; \<open>log10 0 = -inf\<close>), with Rust's
  \<open>f32::max\<close>, which returns the other operand when one is NaN. Finite results are not
  rounded and the sign of zero is not kept: the instance isolates the special values.
  The lemmas show that on finite samples \<open>ieee_ops\<close> computes what \<open>real_ops\<close> computes
  (a refinement through \<open>Fin\<close>), that a chunk containing NaN is reported at the
  -200 dBFS floor, and that a chunk with an infinite sample and no NaN is reported at
  \<open>+inf\<close>.
\<close>

section \<open>Values and operations\<close>

datatype fval = Fin real | PInf | NInf | NaN

fun fv_neg :: "fval \<Rightarrow> fval" where
  "fv_neg (Fin x) = Fin (- x)"
| "fv_neg PInf = NInf"
| "fv_neg NInf = PInf"
| "fv_neg NaN = NaN"

fun fv_add :: "fval \<Rightarrow> fval \<Rightarrow> fval" where
  "fv_add NaN y = NaN"
| "fv_add x NaN = NaN"
| "fv_add PInf NInf = NaN"
| "fv_add NInf PInf = NaN"
| "fv_add PInf y = PInf"
| "fv_add x PInf = PInf"
| "fv_add NInf y = NInf"
| "fv_add x NInf = NInf"
| "fv_add (Fin x) (Fin y) = Fin (x + y)"

fun fv_mul :: "fval \<Rightarrow> fval \<Rightarrow> fval" where
  "fv_mul NaN y = NaN"
| "fv_mul x NaN = NaN"
| "fv_mul (Fin x) (Fin y) = Fin (x * y)"
| "fv_mul (Fin x) y = (if x = 0 then NaN else if 0 < x then y else fv_neg y)"
| "fv_mul x (Fin y) = (if y = 0 then NaN else if 0 < y then x else fv_neg x)"
| "fv_mul PInf PInf = PInf"
| "fv_mul NInf NInf = PInf"
| "fv_mul x y = NInf"

fun fv_div :: "fval \<Rightarrow> fval \<Rightarrow> fval" where
  "fv_div NaN y = NaN"
| "fv_div x NaN = NaN"
| "fv_div (Fin x) (Fin y) =
     (if y \<noteq> 0 then Fin (x / y) else if x = 0 then NaN else if 0 < x then PInf else NInf)"
| "fv_div (Fin x) y = Fin 0"
| "fv_div x (Fin y) = (if y < 0 then fv_neg x else x)"
| "fv_div x y = NaN"

fun fv_sqrt :: "fval \<Rightarrow> fval" where
  "fv_sqrt (Fin x) = (if x < 0 then NaN else Fin (sqrt x))"
| "fv_sqrt PInf = PInf"
| "fv_sqrt NInf = NaN"
| "fv_sqrt NaN = NaN"

text \<open>\<open>f32::max\<close>: NaN is ignored when the other operand is a number.\<close>

fun fv_max :: "fval \<Rightarrow> fval \<Rightarrow> fval" where
  "fv_max NaN y = y"
| "fv_max x NaN = x"
| "fv_max PInf y = PInf"
| "fv_max x PInf = PInf"
| "fv_max NInf y = y"
| "fv_max x NInf = x"
| "fv_max (Fin x) (Fin y) = Fin (max x y)"

fun fv_log10 :: "fval \<Rightarrow> fval" where
  "fv_log10 (Fin x) = (if x < 0 then NaN else if x = 0 then NInf else Fin (log 10 x))"
| "fv_log10 PInf = PInf"
| "fv_log10 NInf = NaN"
| "fv_log10 NaN = NaN"

definition ieee_ops :: "(fval, fval) fops" where
  "ieee_ops =
     \<lparr> to_f64 = id, f64_zero = Fin 0, f64_add = fv_add, f64_mul = fv_mul, f64_div = fv_div,
       f64_sqrt = fv_sqrt, f64_of_usize = (\<lambda>n. Fin (real n)), to_f32 = id, f32_zero = Fin 0,
       f32_lit = Fin, f32_max = fv_max, f32_log10 = fv_log10, f32_mul = fv_mul \<rparr>"

lemma ieee_ops_simps [simp, audio_simps]:
  "to_f64 ieee_ops = id" "f64_zero ieee_ops = Fin 0" "f64_add ieee_ops = fv_add"
  "f64_mul ieee_ops = fv_mul" "f64_div ieee_ops = fv_div" "f64_sqrt ieee_ops = fv_sqrt"
  "f64_of_usize ieee_ops = (\<lambda>n. Fin (real n))" "to_f32 ieee_ops = id" "f32_zero ieee_ops = Fin 0"
  "f32_lit ieee_ops = Fin" "f32_max ieee_ops = fv_max" "f32_log10 ieee_ops = fv_log10"
  "f32_mul ieee_ops = fv_mul"
  by (simp_all add: ieee_ops_def)

section \<open>Folds over special values\<close>

lemma foldl_fv_add_NaN [simp]: "foldl fv_add NaN xs = NaN"
  by (induction xs) auto

lemma foldl_fv_add_has_NaN: "NaN \<in> set xs \<Longrightarrow> foldl fv_add acc xs = NaN"
proof (induction xs arbitrary: acc)
  case Nil
  then show ?case by simp
next
  case (Cons x xs)
  show ?case
  proof (cases "x = NaN")
    case True
    then show ?thesis by (cases acc) simp_all
  next
    case False
    with Cons show ?thesis by simp
  qed
qed

lemma foldl_fv_add_Fin: "foldl fv_add (Fin a) (map Fin xs) = Fin (a + sum_list xs)"
  by (induction xs arbitrary: a) (simp_all add: add.assoc)

text \<open>Squares are never \<open>-inf\<close>; a sum of squares that meets \<open>+inf\<close> stays \<open>+inf\<close>.\<close>

definition square_like :: "fval \<Rightarrow> bool" where
  "square_like v \<longleftrightarrow> v = PInf \<or> (\<exists>y. v = Fin y \<and> 0 \<le> y)"

lemma foldl_fv_add_PInf:
  "\<forall>v\<in>set xs. square_like v \<Longrightarrow> foldl fv_add PInf xs = PInf"
proof (induction xs)
  case Nil
  then show ?case by simp
next
  case (Cons x xs)
  then show ?case by (auto simp: square_like_def)
qed

lemma foldl_fv_add_reaches_PInf:
  "\<forall>v\<in>set xs. square_like v \<Longrightarrow> PInf \<in> set xs \<Longrightarrow> 0 \<le> a \<Longrightarrow> foldl fv_add (Fin a) xs = PInf"
proof (induction xs arbitrary: a)
  case Nil
  then show ?case by simp
next
  case (Cons x xs)
  show ?case
  proof (cases "x = PInf")
    case True
    then show ?thesis using Cons.prems by (simp add: foldl_fv_add_PInf)
  next
    case False
    then obtain y where y: "x = Fin y" "0 \<le> y" using Cons.prems by (auto simp: square_like_def)
    then show ?thesis using Cons False by simp
  qed
qed

lemma fv_mul_self_square_like:
  "v \<noteq> NaN \<Longrightarrow> square_like (fv_mul v v)"
  by (cases v) (auto simp: square_like_def)

section \<open>The reducer and the converter on special values\<close>

lemma sum_sq_ieee: "sum_sq ieee_ops chunk = foldl fv_add (Fin 0) (map (\<lambda>s. fv_mul s s) chunk)"
  by (simp add: sum_sq_def)

lemma calculate_rms_ieee_Fin:
  "calculate_rms ieee_ops (map Fin c) = Fin (calculate_rms real_ops c)"
proof -
  have "map (\<lambda>s. fv_mul s s) (map Fin c) = map Fin (map (\<lambda>x. x * x) c)" by simp
  then have "sum_sq ieee_ops (map Fin c) = Fin (sum_list (map (\<lambda>x. x * x) c))"
    by (simp add: sum_sq_ieee foldl_fv_add_Fin del: map_map)
  moreover have "0 \<le> sum_list (map (\<lambda>x. x * x) c) / real (length c)" by simp
  ultimately show ?thesis
    by (simp add: calculate_rms_def sum_sq_real not_less [symmetric])
qed

lemma rms_to_dbfs_ieee_Fin:
  "rms_to_dbfs ieee_ops (Fin r) = Fin (rms_to_dbfs real_ops r)"
proof -
  have "0 < max r MIN_RMS" by (simp add: less_max_iff_disj)
  then show ?thesis by (simp add: rms_to_dbfs_def rms_to_dbfs_real)
qed

text \<open>
  C19: a chunk that contains a NaN sample is reported at the floor -200 dBFS: the NaN
  propagates through the sum of squares, the division and the square root, and is then
  discarded by \<open>rms.max(MIN_RMS)\<close> (line 49), which returns \<open>MIN_RMS\<close>. The spec says
  only that NaN propagates through the RMS; it says nothing of the decibel value.
\<close>

theorem nan_chunk_reads_floor:
  assumes "NaN \<in> set chunk"
  shows "rms_to_dbfs ieee_ops (calculate_rms ieee_ops chunk) = Fin (-200)"
proof -
  have "NaN \<in> set (map (\<lambda>s. fv_mul s s) chunk)"
    using assms by (force simp: image_iff)
  then have "sum_sq ieee_ops chunk = NaN"
    by (simp add: sum_sq_ieee foldl_fv_add_has_NaN)
  moreover have "chunk \<noteq> []" using assms by auto
  ultimately have "calculate_rms ieee_ops chunk = NaN"
    by (simp add: calculate_rms_def)
  then show ?thesis
    by (simp add: rms_to_dbfs_def log10_MIN_RMS)
qed

theorem nan_chunk_reads_floor_witness:
  "NaN \<in> set [Fin 1, NaN, Fin (-1)]
   \<and> rms_to_dbfs ieee_ops (calculate_rms ieee_ops [Fin 1, NaN, Fin (-1)]) = Fin (-200)"
  using nan_chunk_reads_floor [of "[Fin 1, NaN, Fin (-1)]"] by simp

text \<open>
  C20: a chunk with an infinite sample and no NaN is reported at \<open>+inf\<close> dBFS: the square
  of either infinity is \<open>+inf\<close>, which absorbs the other, non-negative, squares.
\<close>

theorem inf_chunk_reads_pinf:
  assumes "NaN \<notin> set chunk" "PInf \<in> set chunk \<or> NInf \<in> set chunk"
  shows "rms_to_dbfs ieee_ops (calculate_rms ieee_ops chunk) = PInf"
proof -
  let ?sq = "map (\<lambda>s. fv_mul s s) chunk"
  have like: "\<forall>v\<in>set ?sq. square_like v"
    using assms(1) by (auto intro!: fv_mul_self_square_like)
  have "PInf \<in> set ?sq"
    using assms(2) by (force simp: image_iff)
  then have "sum_sq ieee_ops chunk = PInf"
    using foldl_fv_add_reaches_PInf [OF like] by (simp add: sum_sq_ieee)
  moreover have "chunk \<noteq> []" using assms(2) by auto
  ultimately have "calculate_rms ieee_ops chunk = PInf"
    by (simp add: calculate_rms_def)
  then show ?thesis by (simp add: rms_to_dbfs_def)
qed

theorem inf_chunk_reads_pinf_witness:
  "NaN \<notin> set [Fin (1/2), NInf] \<and> (PInf \<in> set [Fin (1/2), NInf] \<or> NInf \<in> set [Fin (1/2), NInf])
   \<and> rms_to_dbfs ieee_ops (calculate_rms ieee_ops [Fin (1/2), NInf]) = PInf"
  using inf_chunk_reads_pinf [of "[Fin (1/2), NInf]"] by simp

text \<open>
  C21: on finite samples the analyser with special values computes exactly what the
  exact-real analyser computes, element by element through \<open>Fin\<close>, in both builds
  (including the debug-build panic): the special values change nothing unless the input
  contains one.
\<close>

theorem analyze_ieee_refines_real:
  assumes "4 * length pcm \<le> isize_max"
  shows "analyze_audio_rms b ieee_ops (map Fin pcm) n
           = map_option (map_sum id (map Fin)) (analyze_audio_rms b real_ops pcm n)"
proof -
  have fits: "4 * length (map Fin pcm) \<le> isize_max" using assms by simp
  have m: "map (\<lambda>c. rms_to_dbfs ieee_ops (calculate_rms ieee_ops c)) (chunks (unat n) (map Fin pcm))
           = map Fin (map (\<lambda>c. rms_to_dbfs real_ops (calculate_rms real_ops c)) (chunks (unat n) pcm))"
    by (simp add: chunks_map calculate_rms_ieee_Fin rms_to_dbfs_ieee_Fin)
  show ?thesis
  proof (cases b)
    case Release
    then show ?thesis
      by (simp add: analyze_audio_rms_Release_result [OF fits] analyze_audio_rms_Release_result [OF assms] m)
  next
    case Debug
    then show ?thesis
      by (simp add: analyze_audio_rms_Debug_result [OF fits] analyze_audio_rms_Debug_result [OF assms] m)
  qed
qed

theorem analyze_ieee_refines_real_witness:
  "4 * length [1, 1, 1 :: real] \<le> isize_max
   \<and> analyze_audio_rms Release ieee_ops (map Fin [1, 1, 1]) 2
       = map_option (map_sum id (map Fin)) (analyze_audio_rms Release real_ops [1, 1, 1] 2)"
proof -
  have fits: "4 * length [1, 1, 1 :: real] \<le> isize_max" by (simp add: isize_max_def)
  show ?thesis using fits analyze_ieee_refines_real [OF fits, of Release 2] by blast
qed

end
