(* ===== verification/Binary_Float.thy ===== *)
theory Binary_Float
  imports Special_Values "HOL-Library.Log_Nat"
begin

text \<open>
  Binary floating-point formats and IEEE-754 rounding to nearest, ties to even, as the
  Rust operations on \<open>f32\<close> and \<open>f64\<close> perform it. A format is given by its precision
  \<open>p\<close> (significand bits, the hidden bit included), the exponent \<open>qmin\<close> of its least
  quantum (the spacing of the subnormals) and the exponent \<open>qmax\<close> of the quantum of its
  largest binade; binary32 is \<open>(24, -149, 104)\<close> and binary64 is \<open>(53, -1074, 971)\<close>.
  A real \<open>x \<noteq> 0\<close> lies in the binade \<open>[2^e, 2^(e+1))\<close> with \<open>e = ilog2 |x|\<close>, computed
  with \<open>floorlog\<close>; its quantum there is \<open>max qmin (e - p + 1)\<close>; \<open>x\<close> is representable
  when it is a multiple of its quantum and at most the largest finite value
  \<open>(2^p - 1) 2^qmax\<close>. \<open>fround\<close> rounds the quotient by the quantum to the nearest integer,
  ties to even, and overflows to an infinity when the result exceeds the largest finite
  value; it is the IEEE rounding of a real result, the sign of zero aside.
  The lemmas give the binade of \<open>ilog2\<close>, the characterisation of representable values
  by an integer significand below \<open>2^p\<close> and an exponent at least \<open>qmin\<close>, that every
  finite result of \<open>fround\<close> is representable, and the bracketing property: a real between
  two representable values rounds to a finite value between them. Every other property
  of rounding that the analyser needs follows from these.
\<close>

section \<open>Formats\<close>

record fformat =
  prec :: nat
  qmin :: int
  qmax :: int

definition binary32 :: fformat where
  "binary32 = \<lparr> prec = 24, qmin = -149, qmax = 104 \<rparr>"

definition binary64 :: fformat where
  "binary64 = \<lparr> prec = 53, qmin = -1074, qmax = 971 \<rparr>"

text \<open>The largest finite value of a format.\<close>

definition fmax :: "fformat \<Rightarrow> real" where
  "fmax fmt = (2 ^ prec fmt - 1) * 2 powi qmax fmt"

text \<open>The exponent of the binade of a positive real: \<open>2^ilog2 y \<le> y < 2^(ilog2 y + 1)\<close>.\<close>

definition ilog2 :: "real \<Rightarrow> int" where
  "ilog2 y = (if 1 \<le> y then int (floorlog 2 (nat \<lfloor>y\<rfloor>)) - 1
              else - int (floorlog 2 (nat \<lceil>1 / y\<rceil> - 1)))"

definition quantum :: "fformat \<Rightarrow> real \<Rightarrow> int" where
  "quantum fmt x = max (qmin fmt) (ilog2 \<bar>x\<bar> - int (prec fmt) + 1)"

definition representable :: "fformat \<Rightarrow> real \<Rightarrow> bool" where
  "representable fmt x \<longleftrightarrow>
     x = 0 \<or> (of_int \<lfloor>x / 2 powi quantum fmt x\<rfloor> = x / 2 powi quantum fmt x \<and> \<bar>x\<bar> \<le> fmax fmt)"

text \<open>Rounding of a real to the nearest integer, ties to the even one.\<close>

definition round_even :: "real \<Rightarrow> int" where
  "round_even r =
     (let f = \<lfloor>r\<rfloor>; d = r - of_int f
      in if d < 1 / 2 then f else if 1 / 2 < d then f + 1 else if even f then f else f + 1)"

definition fround :: "fformat \<Rightarrow> real \<Rightarrow> fval" where
  "fround fmt y =
     (if y = 0 then Fin 0
      else (let q = quantum fmt y; r = of_int (round_even (y / 2 powi q)) * 2 powi q
            in if fmax fmt < \<bar>r\<bar> then (if 0 < y then PInf else NInf) else Fin r))"

text \<open>The values of a format as \<open>fval\<close>s: the infinities and NaN, and the representable reals.\<close>

fun is_fmt :: "fformat \<Rightarrow> fval \<Rightarrow> bool" where
  "is_fmt fmt (Fin x) = representable fmt x"
| "is_fmt fmt v = True"

section \<open>Powers of two\<close>

lemma two_powi_pos [simp]: "0 < (2::real) powi e"
  by (simp add: power_int_def)

lemma two_powi_nonzero [simp]: "(2::real) powi e \<noteq> 0"
  by (simp add: power_int_def)

lemma two_powi_le_iff [simp]: "(2::real) powi a \<le> 2 powi b \<longleftrightarrow> a \<le> b"
proof
  assume le: "(2::real) powi a \<le> 2 powi b"
  show "a \<le> b"
  proof (rule ccontr)
    assume "\<not> a \<le> b"
    then have "(2::real) powi b < 2 powi a" by (intro power_int_strict_increasing) simp_all
    with le show False by simp
  qed
next
  assume "a \<le> b"
  then show "(2::real) powi a \<le> 2 powi b" by (intro power_int_increasing) simp_all
qed

lemma two_powi_less_iff [simp]: "(2::real) powi a < 2 powi b \<longleftrightarrow> a < b"
  using two_powi_le_iff [of b a] by linarith

lemma two_powi_add: "(2::real) powi (a + b) = 2 powi a * 2 powi b"
  by (simp add: power_int_add)

lemma two_powi_nat: "0 \<le> e \<Longrightarrow> (2::real) powi e = 2 ^ nat e"
  by (simp add: power_int_def)

lemma of_int_floor_eq_Ints: "(of_int \<lfloor>r\<rfloor> = r) \<longleftrightarrow> r \<in> \<int>"
  by (metis Ints_cases Ints_of_int floor_of_int)

lemma Ints_div_two_powi_le:
  assumes "x / 2 powi q \<in> \<int>" "q' \<le> q"
  shows "x / (2::real) powi q' \<in> \<int>"
proof -
  have "x / 2 powi q' = (x / 2 powi q) * real (2 ^ nat (q - q'))"
    using assms(2) by (simp add: two_powi_nat [symmetric] two_powi_add [symmetric] field_simps)
  also have "\<dots> \<in> \<int>" using assms(1) by (intro Ints_mult Ints_of_nat)
  finally show ?thesis .
qed

section \<open>The binade of a positive real\<close>

lemma floorlog_pos: "0 < n \<Longrightarrow> 0 < floorlog 2 n"
  by (simp add: floorlog_def)

lemma ilog2_bounds:
  assumes "0 < y"
  shows "2 powi ilog2 y \<le> y \<and> y < 2 powi (ilog2 y + 1)"
proof (cases "1 \<le> y")
  case True
  define N where "N = nat \<lfloor>y\<rfloor>"
  define k where "k = floorlog 2 N"
  have N: "0 < N" using True by (simp add: N_def)
  have k: "0 < k" using floorlog_pos [OF N] by (simp add: k_def)
  have b: "2 ^ (k - 1) \<le> N" "N < 2 ^ k" using floorlog_bounds [OF N] by (simp_all add: k_def)
  have "(2::real) ^ (k - 1) \<le> real N"
    using b(1) by (metis of_nat_le_iff of_nat_numeral of_nat_power)
  moreover have "real N \<le> y" using True by (simp add: N_def)
  moreover have "y < real N + 1" using True by (simp add: N_def)
  moreover have "real N + 1 \<le> 2 ^ k"
    using b(2) by (metis Suc_le_eq of_nat_Suc of_nat_le_iff of_nat_numeral of_nat_power add.commute)
  ultimately have "(2::real) ^ (k - 1) \<le> y" "y < 2 ^ k" by linarith+
  moreover have "ilog2 y = int k - 1" using True by (simp add: ilog2_def k_def N_def)
  moreover have "(2::real) powi (int k - 1) = 2 ^ (k - 1)"
    using k by (simp add: two_powi_nat nat_diff_distrib)
  ultimately show ?thesis by simp
next
  case False
  define z where "z = 1 / y"
  define M where "M = nat \<lceil>z\<rceil>"
  define k where "k = floorlog 2 (M - 1)"
  have z: "1 < z" using False assms by (simp add: z_def)
  have M: "2 \<le> M" using z by (simp add: M_def le_nat_iff)
  have k: "0 < k" using floorlog_pos [of "M - 1"] M by (simp add: k_def)
  have b: "2 ^ (k - 1) \<le> M - 1" "M - 1 < 2 ^ k"
    using floorlog_bounds [of "M - 1" 2] M by (simp_all add: k_def)
  have "real M = of_int \<lceil>z\<rceil>" using z by (simp add: M_def)
  then have zM: "z \<le> real M" "real M - 1 < z"
    using ceiling_correct [of z] by linarith+
  have "M \<le> 2 ^ k" using b(2) M by linarith
  then have "real M \<le> 2 ^ k" by (metis of_nat_le_iff of_nat_numeral of_nat_power)
  then have up: "z \<le> 2 ^ k" using zM(1) by linarith
  have "real (2 ^ (k - 1)) \<le> real (M - 1)" using b(1) by (rule of_nat_mono)
  then have lo: "2 ^ (k - 1) < z" using zM(2) M by (simp add: of_nat_diff)
  have il: "ilog2 y = - int k" using False by (simp add: ilog2_def k_def M_def z_def)
  have y: "1 / z = y" using assms by (simp add: z_def)
  have "(2::real) powi (- int k) = 1 / 2 ^ k" by (simp add: power_int_minus_divide)
  moreover have "(2::real) powi (- int k + 1) = 1 / 2 ^ (k - 1)"
  proof -
    have "- int k + 1 = - int (k - 1)" using k by simp
    then show ?thesis by (simp only: power_int_minus_divide power_int_of_nat)
  qed
  moreover have "1 / 2 ^ k \<le> y"
    using divide_left_mono [of z "2 ^ k" 1] up z y by simp
  moreover have "y < 1 / 2 ^ (k - 1)"
    using divide_strict_left_mono [of "2 ^ (k - 1)" z 1] lo z y by simp
  ultimately show ?thesis by (simp only: il)
qed

lemma ilog2_unique:
  assumes "0 < y" "2 powi e \<le> y" "y < 2 powi (e + 1)"
  shows "ilog2 y = e"
proof -
  have "2 powi e < (2::real) powi (ilog2 y + 1)" "2 powi ilog2 y < (2::real) powi (e + 1)"
    using ilog2_bounds [OF assms(1)] assms(2,3) by linarith+
  then show ?thesis by simp
qed

lemma ilog2_ge_iff:
  assumes "0 < y"
  shows "e \<le> ilog2 y \<longleftrightarrow> 2 powi e \<le> y"
proof
  assume "e \<le> ilog2 y"
  then have "(2::real) powi e \<le> 2 powi ilog2 y" by simp
  then show "2 powi e \<le> y" using ilog2_bounds [OF assms] by linarith
next
  assume "2 powi e \<le> y"
  then have "(2::real) powi e < 2 powi (ilog2 y + 1)" using ilog2_bounds [OF assms] by linarith
  then show "e \<le> ilog2 y" by simp
qed

lemma ilog2_less_iff: "0 < y \<Longrightarrow> ilog2 y < e \<longleftrightarrow> y < 2 powi e"
  using ilog2_ge_iff [of y e] by linarith

lemma ilog2_mono: "0 < x \<Longrightarrow> x \<le> y \<Longrightarrow> ilog2 x \<le> ilog2 y"
  using ilog2_bounds [of x] ilog2_ge_iff [of y "ilog2 x"] by simp

lemma ilog2_two_powi [simp]: "ilog2 (2 powi e) = e"
  by (rule ilog2_unique) (simp_all add: two_powi_add)

section \<open>Quanta and representable values\<close>

lemma quantum_uminus [simp]: "quantum fmt (- x) = quantum fmt x"
  by (simp add: quantum_def)

lemma quantum_ge_qmin: "qmin fmt \<le> quantum fmt x"
  by (simp add: quantum_def)

lemma representable_iff_Ints:
  "representable fmt x \<longleftrightarrow> x = 0 \<or> (x / 2 powi quantum fmt x \<in> \<int> \<and> \<bar>x\<bar> \<le> fmax fmt)"
  by (simp only: representable_def of_int_floor_eq_Ints)

lemma representable_0 [simp]: "representable fmt 0"
  by (simp add: representable_def)

lemma representable_uminus [simp]: "representable fmt (- x) \<longleftrightarrow> representable fmt x"
proof -
  have "(- x / 2 powi quantum fmt x \<in> \<int>) = (x / 2 powi quantum fmt x \<in> \<int>)"
    using minus_in_Ints_iff [of "x / 2 powi quantum fmt x"] by simp
  then show ?thesis by (simp add: representable_iff_Ints)
qed

lemma fmax_pos: "0 < prec fmt \<Longrightarrow> 0 < fmax fmt"
  by (simp add: fmax_def)

lemma representable_abs_le: "representable fmt x \<Longrightarrow> 0 < prec fmt \<Longrightarrow> \<bar>x\<bar> \<le> fmax fmt"
  by (auto simp: representable_def dest: fmax_pos)

text \<open>A non-zero real is below \<open>2^p\<close> quanta; outside the subnormal range it is at least
  \<open>2^(p-1)\<close> quanta.\<close>

lemma abs_less_quantum:
  assumes "x \<noteq> 0"
  shows "\<bar>x\<bar> < 2 powi (quantum fmt x + int (prec fmt))"
proof -
  have "ilog2 \<bar>x\<bar> < quantum fmt x + int (prec fmt)" by (simp add: quantum_def)
  then show ?thesis using assms by (simp add: ilog2_less_iff)
qed

lemma quantum_normal:
  assumes "quantum fmt x \<noteq> qmin fmt"
  shows "quantum fmt x = ilog2 \<bar>x\<bar> - int (prec fmt) + 1"
  using assms by (simp add: quantum_def max_def split: if_splits)

lemma representable_intro:
  assumes x: "x = of_int K * 2 powi f" and K: "\<bar>K\<bar> < 2 ^ prec fmt" and f: "qmin fmt \<le> f"
    and le: "\<bar>x\<bar> \<le> fmax fmt"
  shows "representable fmt x"
proof (cases "x = 0")
  case False
  have "real_of_int \<bar>K\<bar> < 2 ^ prec fmt" using K by (metis of_int_less_iff of_int_numeral of_int_power)
  then have "\<bar>x\<bar> < 2 powi (f + int (prec fmt))"
    using x by (simp add: two_powi_add abs_mult)
  then have "ilog2 \<bar>x\<bar> < f + int (prec fmt)" using False by (simp add: ilog2_less_iff)
  then have q: "quantum fmt x \<le> f" using f by (simp add: quantum_def)
  have "x / 2 powi f \<in> \<int>" using x by simp
  then have "x / 2 powi quantum fmt x \<in> \<int>" using q by (rule Ints_div_two_powi_le)
  then show ?thesis using le by (simp add: representable_iff_Ints)
qed simp

lemma representable_elim:
  assumes "representable fmt x"
  obtains K where "x = of_int K * 2 powi quantum fmt x" "\<bar>K\<bar> < 2 ^ prec fmt"
proof (cases "x = 0")
  case True
  then show ?thesis using that [of 0] by simp
next
  case False
  then obtain K where K: "x / 2 powi quantum fmt x = of_int K"
    using assms by (auto simp: representable_iff_Ints elim: Ints_cases)
  then have x: "x = of_int K * 2 powi quantum fmt x" by (simp add: divide_eq_eq)
  have "\<bar>x\<bar> < 2 powi quantum fmt x * 2 ^ prec fmt"
    using abs_less_quantum [OF False, of fmt] by (simp add: two_powi_add)
  then have "real_of_int \<bar>K\<bar> < 2 ^ prec fmt" by (subst (asm) x) (simp add: abs_mult)
  then have "\<bar>K\<bar> < 2 ^ prec fmt" by (metis of_int_less_iff of_int_numeral of_int_power)
  then show ?thesis using x that by blast
qed

section \<open>Rounding lands between the representable neighbours\<close>

text \<open>A representable value at least as large as the binade of \<open>y\<close> (or any representable
  value, when \<open>y\<close> is subnormal) is a multiple of the quantum of \<open>y\<close>.\<close>

lemma representable_on_grid:
  assumes a: "representable fmt a" "a \<noteq> 0" and y: "y \<noteq> 0"
    and big: "quantum fmt y = qmin fmt \<or> 2 powi ilog2 \<bar>y\<bar> \<le> \<bar>a\<bar>"
  shows "a / 2 powi quantum fmt y \<in> \<int>"
proof -
  have le: "quantum fmt y \<le> quantum fmt a"
    using big
  proof
    assume "quantum fmt y = qmin fmt"
    then show ?thesis using quantum_ge_qmin [of fmt a] by simp
  next
    assume "2 powi ilog2 \<bar>y\<bar> \<le> \<bar>a\<bar>"
    then have "ilog2 \<bar>y\<bar> \<le> ilog2 \<bar>a\<bar>" using a(2) by (simp add: ilog2_ge_iff)
    then show ?thesis by (simp add: quantum_def)
  qed
  have "a / 2 powi quantum fmt a \<in> \<int>" using a by (simp add: representable_iff_Ints)
  then show ?thesis using le by (rule Ints_div_two_powi_le)
qed

lemma mult_two_powi_le_floor:
  assumes "a / 2 powi q \<in> \<int>" "a \<le> y"
  shows "a \<le> of_int \<lfloor>y / 2 powi q\<rfloor> * 2 powi q"
proof -
  obtain m where m: "a / 2 powi q = of_int m" using assms(1) by (auto elim: Ints_cases)
  have "a / 2 powi q \<le> y / 2 powi q" using assms(2) by (simp add: divide_right_mono)
  then have "of_int m \<le> y / 2 powi q" by (simp only: m)
  then have "m \<le> \<lfloor>y / 2 powi q\<rfloor>" by (simp add: le_floor_iff)
  then have "of_int m * 2 powi q \<le> of_int \<lfloor>y / 2 powi q\<rfloor> * (2::real) powi q" by simp
  then show ?thesis using m by (simp add: divide_eq_eq)
qed

text \<open>Every representable value below \<open>y\<close> is below the largest multiple of the quantum of
  \<open>y\<close> that is at most \<open>y\<close>; symmetrically above.\<close>

lemma representable_le_floor:
  assumes a: "representable fmt a" "a \<le> y" and y: "y \<noteq> 0" and p: "0 < prec fmt"
  shows "a \<le> of_int \<lfloor>y / 2 powi quantum fmt y\<rfloor> * 2 powi quantum fmt y"
proof -
  let ?q = "quantum fmt y" and ?e = "ilog2 \<bar>y\<bar>"
  show ?thesis
  proof (cases "a = 0")
    case True
    then have "0 < y" using a(2) y by simp
    then show ?thesis using True by simp
  next
    case a0: False
    show ?thesis
    proof (cases "?q = qmin fmt \<or> 2 powi ?e \<le> \<bar>a\<bar>")
      case True
      show ?thesis
        using representable_on_grid [OF a(1) a0 y True] a(2) by (rule mult_two_powi_le_floor)
    next
      case False
      then have small: "\<bar>a\<bar> < 2 powi ?e" and q: "?q = ?e - int (prec fmt) + 1"
        using quantum_normal [of fmt y] by auto
      have "0 < y"
      proof (rule ccontr)
        assume "\<not> 0 < y"
        then have "\<bar>y\<bar> \<le> \<bar>a\<bar>" using a(2) by simp
        moreover have "2 powi ?e \<le> \<bar>y\<bar>" using ilog2_bounds [of "\<bar>y\<bar>"] y by simp
        ultimately show False using small by simp
      qed
      have e_ge: "?q \<le> ?e" using q p by simp
      have "(2::real) powi ?e = 2 powi (?e - ?q) * 2 powi ?q"
        by (simp flip: two_powi_add)
      then have "(2::real) powi ?e / 2 powi ?q = 2 ^ nat (?e - ?q)"
        using e_ge by (simp add: two_powi_nat)
      then have "(2::real) powi ?e / 2 powi ?q \<in> \<int>" by simp
      moreover have "(2::real) powi ?e \<le> y" using ilog2_bounds [of "\<bar>y\<bar>"] y \<open>0 < y\<close> by simp
      ultimately have "(2::real) powi ?e \<le> of_int \<lfloor>y / 2 powi ?q\<rfloor> * 2 powi ?q"
        by (rule mult_two_powi_le_floor)
      then show ?thesis using small by simp
    qed
  qed
qed

lemma representable_ge_ceiling:
  assumes b: "representable fmt b" "y \<le> b" and y: "y \<noteq> 0" and p: "0 < prec fmt"
  shows "of_int \<lceil>y / 2 powi quantum fmt y\<rceil> * 2 powi quantum fmt y \<le> b"
proof -
  have "- b \<le> of_int \<lfloor>- y / 2 powi quantum fmt (- y)\<rfloor> * 2 powi quantum fmt (- y)"
    using b y p by (intro representable_le_floor) simp_all
  then show ?thesis by (simp add: floor_minus)
qed

lemma round_even_cases: "round_even r = \<lfloor>r\<rfloor> \<or> round_even r = \<lceil>r\<rceil>"
  by (auto simp: round_even_def Let_def ceiling_altdef)

lemma round_even_between: "\<lfloor>r\<rfloor> \<le> round_even r \<and> round_even r \<le> \<lceil>r\<rceil>"
  using round_even_cases [of r] floor_le_ceiling [of r] by auto

text \<open>The bracketing property: a real between two representable values rounds to a finite
  value between them.\<close>

lemma fround_between:
  assumes "representable fmt a" "representable fmt b" "a \<le> y" "y \<le> b" "0 < prec fmt"
  shows "\<exists>r. fround fmt y = Fin r \<and> a \<le> r \<and> r \<le> b"
proof (cases "y = 0")
  case True
  then show ?thesis using assms by (simp add: fround_def)
next
  case False
  let ?q = "quantum fmt y"
  let ?r = "of_int (round_even (y / 2 powi ?q)) * (2::real) powi ?q"
  have lo: "a \<le> of_int \<lfloor>y / 2 powi ?q\<rfloor> * 2 powi ?q"
    by (rule representable_le_floor [OF assms(1,3) False assms(5)])
  have hi: "of_int \<lceil>y / 2 powi ?q\<rceil> * 2 powi ?q \<le> b"
    by (rule representable_ge_ceiling [OF assms(2,4) False assms(5)])
  have "of_int \<lfloor>y / 2 powi ?q\<rfloor> * 2 powi ?q \<le> ?r" "?r \<le> of_int \<lceil>y / 2 powi ?q\<rceil> * 2 powi ?q"
    using round_even_between [of "y / 2 powi ?q"] by simp_all
  then have ar: "a \<le> ?r" "?r \<le> b" using lo hi by linarith+
  have "\<bar>a\<bar> \<le> fmax fmt" "\<bar>b\<bar> \<le> fmax fmt"
    using assms(1,2,5) by (simp_all add: representable_abs_le)
  then have "\<not> fmax fmt < \<bar>?r\<bar>" using ar by linarith
  then have "fround fmt y = Fin ?r" using False by (simp add: fround_def Let_def)
  then show ?thesis using ar by blast
qed

lemma fround_representable:
  "representable fmt x \<Longrightarrow> 0 < prec fmt \<Longrightarrow> fround fmt x = Fin x"
  using fround_between [of fmt x x x] by auto

text \<open>Every finite result of \<open>fround\<close> is representable: the rounded significand is at most
  \<open>2^p\<close> in magnitude, and \<open>2^p\<close> quanta is \<open>2^(p-1)\<close> quanta of the next binade.\<close>

lemma round_even_abs_le:
  assumes "\<bar>r\<bar> < 2 ^ n"
  shows "\<bar>round_even r\<bar> \<le> 2 ^ n"
proof -
  have "- (2 ^ n) \<le> \<lfloor>r\<rfloor>" using assms by (simp add: le_floor_iff)
  moreover have "\<lceil>r\<rceil> \<le> 2 ^ n" using assms by (simp add: ceiling_le_iff)
  ultimately show ?thesis using round_even_between [of r] by linarith
qed

lemma fround_Fin_representable:
  assumes r: "fround fmt y = Fin r" and p: "0 < prec fmt"
  shows "representable fmt r"
proof (cases "y = 0")
  case True
  then show ?thesis using r by (simp add: fround_def)
next
  case False
  let ?q = "quantum fmt y"
  define K where "K = round_even (y / 2 powi ?q)"
  have rK: "r = of_int K * 2 powi ?q" and le: "\<bar>r\<bar> \<le> fmax fmt"
    using r False by (simp_all add: fround_def Let_def K_def split: if_splits)
  have "\<bar>y\<bar> < 2 powi ?q * 2 ^ prec fmt"
    using abs_less_quantum [OF False, of fmt] by (simp add: two_powi_add)
  then have "\<bar>y / 2 powi ?q\<bar> < 2 ^ prec fmt" by (simp add: abs_divide pos_divide_less_eq mult.commute)
  then have K: "\<bar>K\<bar> \<le> 2 ^ prec fmt" unfolding K_def by (rule round_even_abs_le)
  show ?thesis
  proof (cases "\<bar>K\<bar> = 2 ^ prec fmt")
    case False
    then show ?thesis using K rK le quantum_ge_qmin [of fmt y]
      by (intro representable_intro [of r K ?q]) simp_all
  next
    case True
    define K' where "K' = K div 2"
    have "even \<bar>K\<bar>" using True p by simp
    then have KK': "K = 2 * K'" by (simp add: K'_def)
    have "2 * \<bar>K'\<bar> = 2 ^ prec fmt" using True KK' by (simp add: abs_mult)
    moreover have "(0::int) < 2 ^ prec fmt" by simp
    ultimately have "\<bar>K'\<bar> < 2 ^ prec fmt" by linarith
    moreover have "r = of_int K' * 2 powi (?q + 1)" using rK KK' by (simp add: two_powi_add)
    moreover have "qmin fmt \<le> ?q + 1" using quantum_ge_qmin [of fmt y] by simp
    ultimately show ?thesis using le by (intro representable_intro [of r K' "?q + 1"])
  qed
qed

lemma fround_0 [simp]: "fround fmt 0 = Fin 0"
  by (simp add: fround_def)

text \<open>Within half a quantum of a grid point, rounding returns that grid point.\<close>

lemma round_even_near:
  assumes "\<bar>r - of_int k\<bar> < 1 / 2"
  shows "round_even r = k"
proof (cases "of_int k \<le> r")
  case True
  then have "\<lfloor>r\<rfloor> = k" using assms by (intro floor_unique) simp_all
  then show ?thesis using True assms by (simp add: round_even_def Let_def)
next
  case False
  then have "\<lfloor>r\<rfloor> = k - 1" using assms by (intro floor_unique) simp_all
  then show ?thesis using False assms by (simp add: round_even_def Let_def)
qed

lemma fround_near:
  assumes "y \<noteq> 0" "quantum fmt y = q" "\<bar>y / 2 powi q - of_int k\<bar> < 1 / 2"
    "\<bar>of_int k * 2 powi q\<bar> \<le> fmax fmt"
  shows "fround fmt y = Fin (of_int k * 2 powi q)"
  using assms round_even_near [OF assms(3)] by (simp add: fround_def Let_def)

section \<open>The formats of \<open>f32\<close> and \<open>f64\<close>\<close>

lemma binary32_simps [simp]:
  "prec binary32 = 24" "qmin binary32 = -149" "qmax binary32 = 104"
  by (simp_all add: binary32_def)

lemma binary64_simps [simp]:
  "prec binary64 = 53" "qmin binary64 = -1074" "qmax binary64 = 971"
  by (simp_all add: binary64_def)

lemma fmax_binary32: "fmax binary32 = (2 ^ 24 - 1) * 2 ^ 104"
  by (simp add: fmax_def two_powi_nat)

lemma fmax_binary64: "fmax binary64 = (2 ^ 53 - 1) * 2 ^ 971"
  by (simp add: fmax_def two_powi_nat)

lemma fmax_binary32_less: "fmax binary32 < 2 ^ 128"
  by (simp add: fmax_binary32)

lemma fmax_binary32_sq_le: "fmax binary32 * fmax binary32 \<le> fmax binary64"
  by (simp add: fmax_binary32 fmax_binary64)

text \<open>Every \<open>f32\<close> value is an \<open>f64\<close> value, and so is its square: the widening
  \<open>sample as f64\<close> and the product of two widened samples are exact.\<close>

lemma representable_binary32_binary64:
  assumes "representable binary32 x"
  shows "representable binary64 x"
proof -
  obtain K where x: "x = of_int K * 2 powi quantum binary32 x" and K: "\<bar>K\<bar> < 2 ^ 24"
    using assms by (auto elim: representable_elim)
  have "\<bar>x\<bar> \<le> fmax binary32" using assms by (simp add: representable_abs_le)
  also have "\<dots> \<le> fmax binary64" by (simp add: fmax_binary32 fmax_binary64)
  finally have le: "\<bar>x\<bar> \<le> fmax binary64" .
  have "\<bar>K\<bar> < 2 ^ prec binary64" using K by simp
  moreover have "qmin binary64 \<le> quantum binary32 x" using quantum_ge_qmin [of binary32 x] by simp
  ultimately show ?thesis using x le by (intro representable_intro [of x K "quantum binary32 x"])
qed

lemma representable_binary32_square:
  assumes "representable binary32 x"
  shows "representable binary64 (x * x)"
proof -
  define q where "q = quantum binary32 x"
  obtain K where x: "x = of_int K * 2 powi q" and K: "\<bar>K\<bar> < 2 ^ 24"
    using assms unfolding q_def by (auto elim: representable_elim)
  have "\<bar>K\<bar> * \<bar>K\<bar> < 2 ^ 24 * 2 ^ 24" using K by (intro mult_strict_mono) simp_all
  then have KK: "\<bar>K * K\<bar> < 2 ^ prec binary64" by (simp add: abs_mult)
  have xx: "x * x = of_int (K * K) * 2 powi (q + q)" using x two_powi_add [of q q] by simp
  have "qmin binary64 \<le> q + q" using quantum_ge_qmin [of binary32 x] by (simp add: q_def)
  moreover have "\<bar>x * x\<bar> \<le> fmax binary64"
  proof -
    have ax: "\<bar>x\<bar> \<le> fmax binary32" using assms by (simp add: representable_abs_le)
    have "\<bar>x * x\<bar> = \<bar>x\<bar> * \<bar>x\<bar>" by (simp add: abs_mult)
    also have "\<dots> \<le> fmax binary32 * fmax binary32" using ax by (intro mult_mono) simp_all
    also have "\<dots> \<le> fmax binary64" by (rule fmax_binary32_sq_le)
    finally show ?thesis .
  qed
  ultimately show ?thesis using KK xx by (intro representable_intro [of "x * x" "K * K" "q + q"])
qed

end
