(* ===== verification/Rounded_Arith.thy ===== *)
theory Rounded_Arith
  imports Binary_Float
begin

text \<open>
  The third instance of the arithmetic interface \<open>fops\<close>, \<open>rnd_ops\<close>: the operations of
  \<open>calculate_rms\<close> and \<open>rms_to_dbfs\<close> (\<open>src/src/core/wasm/src/lib.rs\<close>, lines 27--54) as
  the target computes them. Every \<open>f64\<close> operation (\<open>*\<close>, the \<open>+\<close> of \<open>.sum()\<close>,
  \<open>/\<close>, \<open>sqrt\<close>, \<open>len() as f64\<close>) is the IEEE special-value rule of \<open>Special_Values\<close>
  followed by rounding to binary64; the cast \<open>as f32\<close>, the \<open>f32\<close> literals, \<open>log10\<close>
  and the \<open>f32\<close> product round to binary32; \<open>sample as f64\<close> is exact and \<open>f32::max\<close>
  returns one of its operands. \<open>log10\<close> is taken as correctly rounded; the platform's
  \<open>log10f\<close> is only documented to be close to it.
  The lemmas show that every value the analyser returns is an \<open>f32\<close> value, that the
  squares of \<open>f32\<close> samples are exact in \<open>f64\<close>, so that the sum of squares rounds only
  its additions, that the \<open>f64\<close> sum of squares of a chunk never overflows, and that for samples in the full-scale range \<open>[-1, 1]\<close> every returned
  value is a finite number between -220 and 0 dBFS.
\<close>

section \<open>The rounded arithmetic\<close>

definition rnd_lift :: "fformat \<Rightarrow> fval \<Rightarrow> fval" where
  "rnd_lift fmt v = (case v of Fin r \<Rightarrow> fround fmt r | _ \<Rightarrow> v)"

definition rnd_ops :: "(fval, fval) fops" where
  "rnd_ops =
     \<lparr> to_f64 = id, f64_zero = Fin 0,
       f64_add = (\<lambda>x y. rnd_lift binary64 (fv_add x y)),
       f64_mul = (\<lambda>x y. rnd_lift binary64 (fv_mul x y)),
       f64_div = (\<lambda>x y. rnd_lift binary64 (fv_div x y)),
       f64_sqrt = (\<lambda>x. rnd_lift binary64 (fv_sqrt x)),
       f64_of_usize = (\<lambda>n. fround binary64 (real n)),
       to_f32 = rnd_lift binary32, f32_zero = Fin 0, f32_lit = fround binary32,
       f32_max = fv_max,
       f32_log10 = (\<lambda>x. rnd_lift binary32 (fv_log10 x)),
       f32_mul = (\<lambda>x y. rnd_lift binary32 (fv_mul x y)) \<rparr>"

lemmas rnd_ops_simps [simp, audio_simps] =
  rnd_ops_def [THEN arg_cong [where f = to_f64], simplified]
  rnd_ops_def [THEN arg_cong [where f = f64_zero], simplified]
  rnd_ops_def [THEN arg_cong [where f = f64_add], simplified]
  rnd_ops_def [THEN arg_cong [where f = f64_mul], simplified]
  rnd_ops_def [THEN arg_cong [where f = f64_div], simplified]
  rnd_ops_def [THEN arg_cong [where f = f64_sqrt], simplified]
  rnd_ops_def [THEN arg_cong [where f = f64_of_usize], simplified]
  rnd_ops_def [THEN arg_cong [where f = to_f32], simplified]
  rnd_ops_def [THEN arg_cong [where f = f32_zero], simplified]
  rnd_ops_def [THEN arg_cong [where f = f32_lit], simplified]
  rnd_ops_def [THEN arg_cong [where f = f32_max], simplified]
  rnd_ops_def [THEN arg_cong [where f = f32_log10], simplified]
  rnd_ops_def [THEN arg_cong [where f = f32_mul], simplified]

lemma rnd_lift_simps [simp]:
  "rnd_lift fmt (Fin r) = fround fmt r" "rnd_lift fmt PInf = PInf"
  "rnd_lift fmt NInf = NInf" "rnd_lift fmt NaN = NaN"
  by (simp_all add: rnd_lift_def)

section \<open>Rounding in the two formats\<close>

lemma fround_cases: "fround fmt y = PInf \<or> fround fmt y = NInf \<or> (\<exists>r. fround fmt y = Fin r)"
  by (auto simp: fround_def Let_def)

lemma is_fmt_fround: "0 < prec fmt \<Longrightarrow> is_fmt fmt (fround fmt y)"
  using fround_cases [of fmt y] fround_Fin_representable [of fmt y] by auto

lemma is_fmt_rnd_lift: "0 < prec fmt \<Longrightarrow> is_fmt fmt (rnd_lift fmt v)"
  by (cases v) (simp_all add: is_fmt_fround)

lemma representable_of_int:
  assumes "\<bar>K\<bar> < 2 ^ prec fmt" "qmin fmt \<le> e" "\<bar>of_int K * 2 powi e\<bar> \<le> fmax fmt"
  shows "representable fmt (of_int K * 2 powi e)"
  using assms by (intro representable_intro [of _ K e]) simp_all

lemma representable32_consts:
  "representable binary32 1" "representable binary32 20" "representable binary32 (-11)"
  "representable binary32 (-220)" "representable binary32 (2 powi (-34))"
  using representable_of_int [of 1 binary32 0] representable_of_int [of 20 binary32 0]
    representable_of_int [of "-11" binary32 0] representable_of_int [of "-220" binary32 0]
    representable_of_int [of 1 binary32 "-34"]
  by (simp_all add: fmax_binary32 power_int_minus_divide)

lemma representable64_nat_mult:
  assumes "k < 2 ^ 53" "-1074 \<le> e" "e \<le> 900"
  shows "representable binary64 (real k * 2 powi e)"
proof -
  have "real k * 2 powi e \<le> 2 ^ 53 * 2 powi 900"
  proof (rule mult_mono)
    show "real k \<le> 2 ^ 53" using assms(1) by (metis less_imp_le of_nat_le_iff of_nat_numeral of_nat_power)
  qed (use assms(3) in \<open>simp_all del: power_int_numeral\<close>)
  also have "\<dots> \<le> fmax binary64" by (simp add: fmax_binary64)
  finally have "\<bar>real k * 2 powi e\<bar> \<le> fmax binary64" by simp
  moreover have "\<bar>int k\<bar> < 2 ^ prec binary64" using assms(1) by simp
  ultimately show ?thesis
    using assms(2) representable_of_int [of "int k" binary64 e] by simp
qed

lemma fround64_nat: "n < 2 ^ 53 \<Longrightarrow> fround binary64 (real n) = Fin (real n)"
  using representable64_nat_mult [of n 0] by (simp add: fround_representable)

lemma representable64_one: "representable binary64 1"
  using representable64_nat_mult [of 1 0] by simp

lemma fround_unit:
  assumes "0 \<le> y" "y \<le> 1" "0 < prec fmt" "representable fmt 1"
  shows "\<exists>r. fround fmt y = Fin r \<and> 0 \<le> r \<and> r \<le> 1"
  using fround_between [of fmt 0 1 y] assms by simp

lemma square_le_two_powi_256:
  assumes "representable binary32 x"
  shows "0 \<le> x * x \<and> x * x \<le> 2 powi 256"
proof -
  have "\<bar>x\<bar> \<le> 2 ^ 128"
    using representable_abs_le [OF assms] fmax_binary32_less by simp
  then have "\<bar>x\<bar> * \<bar>x\<bar> \<le> 2 ^ 128 * 2 ^ 128" by (intro mult_mono) simp_all
  then show ?thesis by (simp add: abs_mult [symmetric])
qed

section \<open>The sum of squares\<close>

abbreviation rnd_sum :: "fval \<Rightarrow> real list \<Rightarrow> fval" where
  "rnd_sum a ys \<equiv> foldl (\<lambda>a b. rnd_lift binary64 (fv_add a b)) a (map Fin ys)"

lemma sum_sq_rnd:
  assumes "list_all (representable binary32) xs"
  shows "sum_sq rnd_ops (map Fin xs) = rnd_sum (Fin 0) (map (\<lambda>x. x * x) xs)"
proof -
  have "map (\<lambda>sample. f64_mul rnd_ops (to_f64 rnd_ops sample) (to_f64 rnd_ops sample)) (map Fin xs)
          = map Fin (map (\<lambda>x. x * x) xs)"
    using assms
    by (induction xs) (simp_all add: fround_representable representable_binary32_square)
  then show ?thesis by (simp only: sum_sq_def) simp
qed

text \<open>The rounded partial sums of values in \<open>[0, 2^e]\<close> stay below \<open>k 2^e\<close> after \<open>k\<close>
  terms, because \<open>k 2^e\<close> is a binary64 value and rounding never crosses one.\<close>

lemma rnd_sum_bound:
  assumes "list_all (\<lambda>y. 0 \<le> y \<and> y \<le> 2 powi e) ys" "0 \<le> a" "a \<le> real k * 2 powi e"
    "k + length ys < 2 ^ 53" "-1074 \<le> e" "e \<le> 900"
  shows "\<exists>s. rnd_sum (Fin a) ys = Fin s \<and> 0 \<le> s \<and> s \<le> real (k + length ys) * 2 powi e"
  using assms
proof (induction ys arbitrary: a k)
  case Nil
  then show ?case by simp
next
  case (Cons y ys)
  have "a + y \<le> real (Suc k) * 2 powi e" using Cons.prems(1,3) by (simp add: algebra_simps)
  moreover have "representable binary64 (real (Suc k) * 2 powi e)"
    using Cons.prems(4-6) by (intro representable64_nat_mult) simp_all
  moreover have "0 \<le> a + y" using Cons.prems(1,2) by simp
  ultimately obtain a' where a': "fround binary64 (a + y) = Fin a'" "0 \<le> a'"
      "a' \<le> real (Suc k) * 2 powi e"
    using fround_between [of binary64 0 "real (Suc k) * 2 powi e" "a + y"] by auto
  have "\<exists>s. rnd_sum (Fin a') ys = Fin s \<and> 0 \<le> s \<and> s \<le> real (Suc k + length ys) * 2 powi e"
    using Cons.prems a' by (intro Cons.IH) simp_all
  then show ?case using a' by simp
qed

section \<open>The reducer and the converter on full-scale samples\<close>

lemma calculate_rms_rnd_unit:
  assumes "list_all (\<lambda>x. representable binary32 x \<and> \<bar>x\<bar> \<le> 1) c" "c \<noteq> []" "length c < 2 ^ 53"
  shows "\<exists>r. calculate_rms rnd_ops (map Fin c) = Fin r \<and> 0 \<le> r \<and> r \<le> 1"
proof -
  have c32: "list_all (representable binary32) c" using assms(1) by (simp add: list_all_iff)
  have le1: "y * y \<le> 1" if "\<bar>y\<bar> \<le> 1" for y :: real
    using mult_mono [of "\<bar>y\<bar>" 1 "\<bar>y\<bar>" 1] that by (simp add: abs_mult [symmetric])
  have sq: "list_all (\<lambda>y. 0 \<le> y \<and> y \<le> 2 powi 0) (map (\<lambda>x. x * x) c)"
    using assms(1) by (auto simp: list_all_iff le1)
  obtain s where s: "sum_sq rnd_ops (map Fin c) = Fin s" "0 \<le> s" "s \<le> real (length c)"
    using rnd_sum_bound [OF sq, of 0 0] assms(3) by (auto simp: sum_sq_rnd [OF c32])
  have n: "0 < real (length c)" using assms(2) by simp
  obtain m where m: "fround binary64 (s / real (length c)) = Fin m" "0 \<le> m" "m \<le> 1"
    using fround_unit [of "s / real (length c)" binary64] s n representable64_one
    by (auto simp: divide_le_eq)
  obtain m' where m': "fround binary64 (sqrt m) = Fin m'" "0 \<le> m'" "m' \<le> 1"
    using fround_unit [of "sqrt m" binary64] m representable64_one by auto
  obtain r where r: "fround binary32 m' = Fin r" "0 \<le> r" "r \<le> 1"
    using fround_unit [of m' binary32] m' representable32_consts(1) by auto
  have "calculate_rms rnd_ops (map Fin c) = Fin r"
    using assms(2,3) s(1) n m(1) m(2) m'(1) r(1)
    by (simp add: calculate_rms_def fround64_nat)
  then show ?thesis using r by blast
qed

lemma MIN_RMS_f32:
  "\<exists>m. fround binary32 MIN_RMS = Fin m \<and> 2 powi (-34) \<le> m \<and> m \<le> 1"
proof -
  have "(2::real) powi (-34) \<le> MIN_RMS" by (simp add: MIN_RMS_def power_int_minus_divide)
  then show ?thesis
    using fround_between [of binary32 "2 powi (-34)" 1 MIN_RMS] representable32_consts by simp
qed

lemma log10_ge_minus_11:
  assumes "2 powi (-34) \<le> x"
  shows "-11 \<le> log 10 x"
proof -
  have "(1::real) / 10 ^ 11 \<le> 2 powi (-34)" by (simp add: power_int_minus_divide)
  then have "log 10 (1 / 10 ^ 11) \<le> log 10 x"
    using assms by (intro log10_mono_le) simp_all
  then show ?thesis using log10_pow10_inverse [of 11] by simp
qed

lemma rms_to_dbfs_rnd_range:
  assumes "0 \<le> r" "r \<le> 1"
  shows "\<exists>d. rms_to_dbfs rnd_ops (Fin r) = Fin d \<and> -220 \<le> d \<and> d \<le> 0"
proof -
  obtain m where m: "fround binary32 MIN_RMS = Fin m" "2 powi (-34) \<le> m" "m \<le> 1"
    using MIN_RMS_f32 by blast
  define x where "x = max r m"
  have x: "2 powi (-34) \<le> x" "x \<le> 1" "0 < x"
    using m assms by (auto simp: x_def intro: less_le_trans [OF two_powi_pos])
  have "-11 \<le> log 10 x" "log 10 x \<le> 0" using x by (simp_all add: log10_ge_minus_11)
  then obtain l where l: "fround binary32 (log 10 x) = Fin l" "-11 \<le> l" "l \<le> 0"
    using fround_between [of binary32 "-11" 0 "log 10 x"] representable32_consts by auto
  have "-220 \<le> 20 * l" "20 * l \<le> 0" using l by simp_all
  then obtain d where d: "fround binary32 (20 * l) = Fin d" "-220 \<le> d" "d \<le> 0"
    using fround_between [of binary32 "-220" 0 "20 * l"] representable32_consts by auto
  have "rms_to_dbfs rnd_ops (Fin r) = Fin d"
    using m(1) x(3) l(1) d(1) representable32_consts(2)
    by (simp add: rms_to_dbfs_def x_def [symmetric] fround_representable not_less_iff_gr_or_eq)
  then show ?thesis using d by blast
qed

section \<open>The analyser under rounding\<close>

lemma analyze_audio_rms_Inr:
  assumes "4 * length pcm \<le> isize_max" "analyze_audio_rms b ops pcm n = Some (Inr r)"
  shows "r = map (\<lambda>c. rms_to_dbfs ops (calculate_rms ops c)) (chunks (unat n) pcm)"
proof (cases b)
  case Release
  then show ?thesis using assms analyze_audio_rms_Release_result [OF assms(1), of ops n] by simp
next
  case Debug
  then show ?thesis
    using assms analyze_audio_rms_Debug_result [OF assms(1), of ops n] by (simp split: if_splits)
qed

lemma chunk_of_chunks:
  assumes "c \<in> set (chunks n xs)"
  shows "set c \<subseteq> set xs \<and> c \<noteq> [] \<and> length c \<le> length xs"
proof -
  have n: "0 < n" using assms by (cases n) simp_all
  obtain as bs where "chunks n xs = as @ c # bs" using assms by (auto dest: split_list)
  then have "xs = concat as @ c @ concat bs" using concat_chunks_helper [OF n, of xs] by simp
  then have "set c \<subseteq> set xs \<and> length c \<le> length xs" by (metis le_add1 length_append order_trans le_add2 set_append sup_ge1 sup_ge2)
  then show ?thesis using set_chunks_helper [OF assms] by simp
qed

lemma is_fmt_rms_to_dbfs_rnd: "is_fmt binary32 (rms_to_dbfs rnd_ops x)"
  by (simp add: rms_to_dbfs_def Let_def is_fmt_rnd_lift)

text \<open>
  C24: the only roundings in the sum of squares of line 34 are those of the additions:
  for \<open>f32\<close> samples, \<open>sum_sq\<close> under IEEE rounding is the \<open>f64\<close> fold of \<open>+\<close> over the
  exact squares, because a sample widened with \<open>as f64\<close> and multiplied by itself in
  \<open>f64\<close> is exact (24-bit significands give 48-bit products). Squaring before widening
  (in \<open>f32\<close>) would round every square.
\<close>

theorem sum_sq_exact_squares:
  assumes "list_all (representable binary32) xs"
  shows "sum_sq rnd_ops (map Fin xs)
           = foldl (f64_add rnd_ops) (f64_zero rnd_ops) (map (\<lambda>x. Fin (x * x)) xs)"
proof -
  have "map (\<lambda>s. f64_mul rnd_ops (to_f64 rnd_ops s) (to_f64 rnd_ops s)) (map Fin xs)
          = map (\<lambda>x. Fin (x * x)) xs"
    using assms by (induction xs) (simp_all add: representable_binary32_square fround_representable)
  then show ?thesis by (simp only: sum_sq_def)
qed

theorem sum_sq_exact_squares_witness:
  "list_all (representable binary32) [1, 20]
   \<and> sum_sq rnd_ops (map Fin [1, 20])
       = foldl (f64_add rnd_ops) (f64_zero rnd_ops) (map (\<lambda>x. Fin (x * x)) [1, 20])"
  using sum_sq_exact_squares [of "[1, 20]"] representable32_consts(1,2) by simp

text \<open>
  C25: the \<open>f64\<close> accumulator of line 34 never overflows: for every chunk of finite \<open>f32\<close>
  samples with fewer than \<open>2^53\<close> elements (every chunk that fits in wasm32 memory), the
  rounded sum of squares is a finite number between 0 and \<open>length * 2^256\<close>.
\<close>

theorem sum_sq_no_overflow:
  assumes "list_all (representable binary32) xs" "length xs < 2 ^ 53"
  shows "\<exists>s. sum_sq rnd_ops (map Fin xs) = Fin s \<and> 0 \<le> s \<and> s \<le> real (length xs) * 2 ^ 256"
proof -
  have "list_all (\<lambda>y. 0 \<le> y \<and> y \<le> 2 powi 256) (map (\<lambda>x. x * x) xs)"
    using assms(1) square_le_two_powi_256 by (auto simp: list_all_iff simp del: power_int_numeral)
  then obtain s where "rnd_sum (Fin 0) (map (\<lambda>x. x * x) xs) = Fin s" "0 \<le> s"
      "s \<le> real (length xs) * 2 powi 256"
    using rnd_sum_bound [of 256 "map (\<lambda>x. x * x) xs" 0 0] assms(2)
    by (auto simp del: power_int_numeral)
  then show ?thesis by (simp add: sum_sq_rnd [OF assms(1)])
qed

theorem sum_sq_no_overflow_witness:
  "list_all (representable binary32) [1, -11] \<and> length [1, -11 :: real] < 2 ^ 53
   \<and> (\<exists>s. sum_sq rnd_ops (map Fin [1, -11]) = Fin s \<and> 0 \<le> s \<and> s \<le> 2 * 2 ^ 256)"
proof -
  have "list_all (representable binary32) [1, -11]" using representable32_consts by simp
  then show ?thesis using sum_sq_no_overflow [of "[1, -11]"] by simp
qed

text \<open>
  C26: for finite \<open>f32\<close> samples in the full-scale range \<open>[-1, 1]\<close>, every value that the
  analyser returns, in either build, is a finite number between -220 and 0 dBFS: no
  infinity, no NaN, nothing above full scale, whatever the rounding of the \<open>f64\<close> and
  \<open>f32\<close> steps.
\<close>

theorem analyze_full_scale_range:
  assumes "list_all (\<lambda>x. representable binary32 x \<and> \<bar>x\<bar> \<le> 1) pcm"
    "4 * length pcm \<le> isize_max" "analyze_audio_rms b rnd_ops (map Fin pcm) n = Some (Inr r)"
  shows "list_all (\<lambda>v. \<exists>d. v = Fin d \<and> -220 \<le> d \<and> d \<le> 0) r"
proof -
  have fits: "4 * length (map Fin pcm) \<le> isize_max" using assms(2) by simp
  have r: "r = map (\<lambda>c. rms_to_dbfs rnd_ops (calculate_rms rnd_ops (map Fin c))) (chunks (unat n) pcm)"
    using analyze_audio_rms_Inr [OF fits assms(3)] by (simp add: chunks_map)
  have "\<exists>d. rms_to_dbfs rnd_ops (calculate_rms rnd_ops (map Fin c)) = Fin d \<and> -220 \<le> d \<and> d \<le> 0"
    if c: "c \<in> set (chunks (unat n) pcm)" for c
  proof -
    note cc = chunk_of_chunks [OF c]
    have "list_all (\<lambda>x. representable binary32 x \<and> \<bar>x\<bar> \<le> 1) c"
      using assms(1) cc by (auto simp: list_all_iff)
    moreover have "length c < 2 ^ 53" using cc assms(2) by (simp add: isize_max_def)
    ultimately obtain rms where "calculate_rms rnd_ops (map Fin c) = Fin rms" "0 \<le> rms" "rms \<le> 1"
      using calculate_rms_rnd_unit cc by blast
    then show ?thesis using rms_to_dbfs_rnd_range by simp
  qed
  then show ?thesis using r by (auto simp: list_all_iff)
qed

theorem analyze_full_scale_range_witness:
  "list_all (\<lambda>x. representable binary32 x \<and> \<bar>x\<bar> \<le> 1) [1 :: real]
   \<and> 4 * length [1 :: real] \<le> isize_max
   \<and> analyze_audio_rms Release rnd_ops (map Fin [1]) 1
       = Some (Inr [rms_to_dbfs rnd_ops (calculate_rms rnd_ops [Fin 1])])
   \<and> list_all (\<lambda>v. \<exists>d. v = Fin d \<and> -220 \<le> d \<and> d \<le> 0)
       [rms_to_dbfs rnd_ops (calculate_rms rnd_ops [Fin 1])]"
proof -
  have pcm: "list_all (\<lambda>x. representable binary32 x \<and> \<bar>x\<bar> \<le> 1) [1 :: real]"
    using representable32_consts(1) by simp
  have fits: "4 * length [1 :: real] \<le> isize_max" by (simp add: isize_max_def)
  have run: "analyze_audio_rms Release rnd_ops (map Fin [1]) 1
               = Some (Inr [rms_to_dbfs rnd_ops (calculate_rms rnd_ops [Fin 1])])"
    using analyze_audio_rms_Release_result [of "map Fin [1 :: real]" rnd_ops 1]
    by (simp add: chunks_short isize_max_def)
  show ?thesis using pcm fits run analyze_full_scale_range [OF pcm fits run] by simp
qed

end
