(* ===== verification/Rounded_Floor.thy ===== *)
theory Rounded_Floor
  imports Rounded_Arith
begin

text \<open>
  The decibel floor of \<open>rms_to_dbfs\<close> (\<open>src/src/core/wasm/src/lib.rs\<close>, lines 7 and
  47--54) under IEEE rounding. The literal \<open>1.0e-10\<close> of \<open>MIN_RMS\<close> is the binary32 value
  \<open>14411519 / 2^57\<close>, slightly above \<open>10^-10\<close>; its \<open>log10\<close> lies within \<open>2^-22\<close> of -10,
  so it rounds to -10 in binary32 and \<open>20.0 * -10.0\<close> is exactly -200. The lemmas show
  that every amplitude at or below the \<open>f32\<close> value of \<open>MIN_RMS\<close> is reported at exactly
  -200 dBFS by the rounded arithmetic, and that a silent buffer yields exactly -200 for
  every chunk, the spec's second scenario computed bit for bit.
\<close>

section \<open>The f32 value of MIN_RMS and its logarithm\<close>

lemma ilog2_MIN_RMS: "ilog2 MIN_RMS = -34"
  by (rule ilog2_unique) (simp_all add: MIN_RMS_def power_int_minus_divide)

lemma quantum_MIN_RMS: "quantum binary32 MIN_RMS = -57"
  by (simp add: quantum_def ilog2_MIN_RMS)

lemma f32_MIN_RMS: "fround binary32 MIN_RMS = Fin (14411519 / 2 ^ 57)"
proof -
  have "fround binary32 MIN_RMS = Fin (of_int 14411519 * 2 powi (-57))"
    by (rule fround_near [OF MIN_RMS_not_neg(2) quantum_MIN_RMS])
       (simp_all add: MIN_RMS_def power_int_minus_divide fmax_binary32)
  then show ?thesis by (simp add: power_int_minus_divide)
qed

lemma ln_10_ge: "9 / 10 \<le> ln (10 :: real)"
proof -
  have "ln (1 / 10 :: real) \<le> 1 / 10 - 1" by (rule ln_le_minus_one) simp
  then show ?thesis by (simp add: ln_div)
qed

lemma log10_f32_MIN_RMS_bounds:
  "-10 \<le> log 10 (14411519 / 2 ^ 57) \<and> log 10 (14411519 / 2 ^ 57) \<le> -10 + 1 / 2 ^ 22"
proof -
  define t :: real where "t = 14411519 * 10 ^ 10 / 2 ^ 57"
  have t: "1 \<le> t" "t - 1 \<le> 1 / 2 ^ 26" by (simp_all add: t_def)
  have m: "(14411519 / 2 ^ 57 :: real) = t * (1 / 10 ^ 10)" by (simp add: t_def)
  have "log 10 (t * (1 / 10 ^ 10)) = log 10 t + log 10 (1 / 10 ^ 10)"
    using t(1) by (intro log_mult_pos) simp_all
  then have split: "log 10 (14411519 / 2 ^ 57) = log 10 t - 10"
    using log10_pow10_inverse [of 10] by (simp only: m)
  have "0 \<le> log 10 t" using t(1) by simp
  moreover have "log 10 t \<le> 1 / 2 ^ 22"
  proof -
    have ln: "ln t \<le> 1 / 2 ^ 26" using ln_le_minus_one [of t] t by simp
    have "log 10 t = ln t / ln 10" by (simp add: log_def)
    also have "\<dots> \<le> (1 / 2 ^ 26) / (9 / 10)"
      using ln ln_10_ge t(1) by (intro frac_le) simp_all
    also have "\<dots> \<le> 1 / 2 ^ 22" by simp
    finally show ?thesis .
  qed
  ultimately show ?thesis using split by simp
qed

lemma f32_log10_MIN_RMS: "fround binary32 (log 10 (14411519 / 2 ^ 57)) = Fin (-10)"
proof -
  let ?y = "log 10 (14411519 / 2 ^ 57 :: real)"
  note b = log10_f32_MIN_RMS_bounds
  have "(1::real) / 2 ^ 22 < 10" by simp
  then have y0: "?y \<noteq> 0" using b by linarith
  have "ilog2 \<bar>?y\<bar> = 3"
    using b by (intro ilog2_unique) simp_all
  then have q: "quantum binary32 ?y = -20" by (simp add: quantum_def)
  have "\<bar>?y / 2 powi (-20) - of_int (-10485760)\<bar> < 1 / 2"
  proof -
    have "?y / 2 powi (-20) - of_int (-10485760) = (?y + 10) * 2 ^ 20"
      by (simp add: power_int_minus_divide algebra_simps)
    moreover have "0 \<le> (?y + 10) * 2 ^ 20" "(?y + 10) * 2 ^ 20 \<le> 1 / 4" using b by simp_all
    ultimately show ?thesis by simp
  qed
  then have "fround binary32 ?y = Fin (of_int (-10485760) * 2 powi (-20))"
    using y0 q by (intro fround_near) (simp_all add: power_int_minus_divide fmax_binary32)
  then show ?thesis by (simp add: power_int_minus_divide)
qed

lemma representable32_minus_200: "representable binary32 (-200)"
  using representable_of_int [of "-200" binary32 0] by (simp add: fmax_binary32)

section \<open>Silent chunks under rounding\<close>

lemma rnd_sum_zeros: "list_all (\<lambda>y. y = 0) ys \<Longrightarrow> rnd_sum (Fin 0) ys = Fin 0"
  by (induction ys) simp_all

lemma calculate_rms_rnd_silent:
  assumes "list_all (\<lambda>x. x = 0) c" "c \<noteq> []" "length c < 2 ^ 53"
  shows "calculate_rms rnd_ops (map Fin c) = Fin 0"
proof -
  have c32: "list_all (representable binary32) c" using assms(1) by (auto simp: list_all_iff)
  have "list_all (\<lambda>y. y = 0) (map (\<lambda>x. x * x) c)" using assms(1) by (simp add: list_all_iff)
  then have "rnd_sum (Fin 0) (map (\<lambda>x. x * x) c) = Fin 0" by (rule rnd_sum_zeros)
  then have "sum_sq rnd_ops (map Fin c) = Fin 0" by (simp only: sum_sq_rnd [OF c32])
  moreover have "fround binary64 (real (length c)) = Fin (real (length c))"
    using assms(3) by (rule fround64_nat)
  ultimately show ?thesis using assms(2) by (simp add: calculate_rms_def)
qed

lemma rms_to_dbfs_rnd_silent: "rms_to_dbfs rnd_ops (Fin 0) = Fin (-200)"
  by (simp add: rms_to_dbfs_def f32_MIN_RMS [simplified] f32_log10_MIN_RMS [simplified] fround_representable
      representable32_consts(2) fround_representable [OF representable32_minus_200])

section \<open>Properties of the floor under rounding\<close>

text \<open>
  C27: under IEEE rounding the decibel floor is exactly -200 dBFS and is reached by every
  amplitude at or below the \<open>f32\<close> value \<open>14411519 / 2^57\<close> of the literal \<open>1.0e-10\<close>
  (slightly above \<open>10^-10\<close>): the clamp returns that value, its \<open>log10\<close> rounds to
  exactly -10, and \<open>20.0 * -10.0\<close> is -200. The comment on line 7 (-100 dBFS) is wrong
  for the computed floating-point value too.
\<close>

theorem rms_to_dbfs_rnd_floor:
  assumes "r \<le> 14411519 / 2 ^ 57"
  shows "rms_to_dbfs rnd_ops (Fin r) = Fin (-200)"
proof -
  have "max r (14411519 / 2 ^ 57) = 14411519 / 2 ^ 57" using assms by simp
  then show ?thesis
    by (simp add: rms_to_dbfs_def f32_MIN_RMS [simplified] f32_log10_MIN_RMS [simplified] fround_representable
        representable32_consts(2) fround_representable [OF representable32_minus_200])
qed

theorem rms_to_dbfs_rnd_floor_witness:
  "(1 / 10 ^ 10 :: real) \<le> 14411519 / 2 ^ 57
   \<and> rms_to_dbfs rnd_ops (Fin (1 / 10 ^ 10)) = Fin (-200)"
  using rms_to_dbfs_rnd_floor [of "1 / 10 ^ 10"] by simp

text \<open>
  C28: a silent buffer is reported at exactly -200 dBFS for every chunk, in either build,
  by the rounded arithmetic: the spec's second scenario holds bit for bit on the target,
  not only in exact arithmetic.
\<close>

theorem analyze_silence_rounded:
  assumes "list_all (\<lambda>x. x = 0) pcm" "4 * length pcm \<le> isize_max"
    "analyze_audio_rms b rnd_ops (map Fin pcm) n = Some (Inr r)"
  shows "list_all (\<lambda>v. v = Fin (-200)) r"
proof -
  have fits: "4 * length (map Fin pcm) \<le> isize_max" using assms(2) by simp
  have r: "r = map (\<lambda>c. rms_to_dbfs rnd_ops (calculate_rms rnd_ops (map Fin c))) (chunks (unat n) pcm)"
    using analyze_audio_rms_Inr [OF fits assms(3)] by (simp add: chunks_map)
  have "rms_to_dbfs rnd_ops (calculate_rms rnd_ops (map Fin c)) = Fin (-200)"
    if c: "c \<in> set (chunks (unat n) pcm)" for c
  proof -
    note cc = chunk_of_chunks [OF c]
    have "list_all (\<lambda>x. x = 0) c" using assms(1) cc by (auto simp: list_all_iff)
    moreover have "length c < 2 ^ 53" using cc assms(2) by (simp add: isize_max_def)
    ultimately show ?thesis using cc by (simp add: calculate_rms_rnd_silent rms_to_dbfs_rnd_silent)
  qed
  then show ?thesis using r by (auto simp: list_all_iff)
qed

theorem analyze_silence_rounded_witness:
  "list_all (\<lambda>x. x = 0) [0, 0, 0 :: real] \<and> 4 * length [0, 0, 0 :: real] \<le> isize_max
   \<and> analyze_audio_rms Debug rnd_ops (map Fin [0, 0, 0]) 3
       = Some (Inr [rms_to_dbfs rnd_ops (calculate_rms rnd_ops [Fin 0, Fin 0, Fin 0])])
   \<and> list_all (\<lambda>v. v = Fin (-200)) [rms_to_dbfs rnd_ops (calculate_rms rnd_ops [Fin 0, Fin 0, Fin 0])]"
proof -
  have pcm: "list_all (\<lambda>x. x = 0) [0, 0, 0 :: real]" by simp
  have fits: "4 * length [0, 0, 0 :: real] \<le> isize_max" by (simp add: isize_max_def)
  have run: "analyze_audio_rms Debug rnd_ops (map Fin [0, 0, 0]) 3
               = Some (Inr [rms_to_dbfs rnd_ops (calculate_rms rnd_ops [Fin 0, Fin 0, Fin 0])])"
    using analyze_audio_rms_Debug_result [of "map Fin [0, 0, 0 :: real]" rnd_ops 3]
    by (simp add: chunks_short isize_max_def)
  show ?thesis using pcm fits run analyze_silence_rounded [OF pcm fits run] by simp
qed

end
