(* ===== verification/Rounding_Error.thy ===== *)
theory Rounding_Error
  imports Rounded_Floor
begin

text \<open>
  How far the analyser computed on the target (\<open>rnd_ops\<close>) is from the exact analyser
  (\<open>real_ops\<close>). Rounding to nearest moves a value by at most half a quantum, hence by at
  most \<open>2^-p\<close> of the value in the normal range; the squares of full-scale \<open>f32\<close> samples
  are zero or at least \<open>2^-298\<close>, so every \<open>f64\<close> partial sum, mean and root stays in the
  normal range and each \<open>f64\<close> step of \<open>calculate_rms\<close> contributes a factor in
  \<open>[1 - 2^-53, 1 + 2^-53]\<close>. For chunks of at most \<open>2^29\<close> samples (every chunk of a
  buffer that fits in wasm32 memory) the rounded RMS \<open>v\<close> of a chunk with exact RMS
  \<open>rho\<close> satisfies \<open>|v - rho| \<le> rho 2^-20 + 2^-150\<close> (\<open>calculate_rms_rnd_err\<close>); the
  clamp, \<open>log10\<close> and the product then keep the rounded decibel value within 0.001 dB of
  the exact one (\<open>rms_to_dbfs_rnd_err\<close>), which C31 lifts to the whole analyser.
\<close>

section \<open>The error of one rounding\<close>

lemma round_even_dist: "\<bar>of_int (round_even r) - r\<bar> \<le> 1 / 2"
proof -
  define f where "f = \<lfloor>r\<rfloor>"
  have f: "of_int f \<le> r" "r < of_int f + 1" by (simp_all add: f_def)
  show ?thesis using f by (auto simp: round_even_def Let_def f_def [symmetric])
qed

lemma fround_error_quantum:
  assumes "fround fmt y = Fin r"
  shows "\<bar>r - y\<bar> \<le> 2 powi quantum fmt y / 2"
proof (cases "y = 0")
  case True
  then show ?thesis using assms by simp
next
  case False
  let ?q = "quantum fmt y"
  have r: "r = of_int (round_even (y / 2 powi ?q)) * 2 powi ?q"
    using assms False by (simp add: fround_def Let_def split: if_splits)
  have "r - y = (of_int (round_even (y / 2 powi ?q)) - y / 2 powi ?q) * 2 powi ?q"
    by (simp add: r algebra_simps)
  then have "\<bar>r - y\<bar> = \<bar>of_int (round_even (y / 2 powi ?q)) - y / 2 powi ?q\<bar> * 2 powi ?q"
    by (simp add: abs_mult)
  also have "\<dots> \<le> 1 / 2 * 2 powi ?q"
    using round_even_dist [of "y / 2 powi ?q"] by (intro mult_right_mono) simp_all
  finally show ?thesis by simp
qed

text \<open>In the normal range the error is at most \<open>2^-p\<close> of the value.\<close>

lemma fround_rel_error:
  assumes r: "fround fmt y = Fin r" and p: "0 < prec fmt"
    and normal: "2 powi (qmin fmt + int (prec fmt) - 1) \<le> \<bar>y\<bar>"
  shows "\<bar>r - y\<bar> \<le> \<bar>y\<bar> * 2 powi (- int (prec fmt))"
proof -
  have y: "0 < \<bar>y\<bar>" using normal less_le_trans [OF two_powi_pos] by blast
  have e: "qmin fmt + int (prec fmt) - 1 \<le> ilog2 \<bar>y\<bar>" using normal y by (simp add: ilog2_ge_iff)
  then have q: "quantum fmt y = ilog2 \<bar>y\<bar> - int (prec fmt) + 1" by (simp add: quantum_def)
  have "(2::real) powi quantum fmt y / 2 = 2 powi ilog2 \<bar>y\<bar> * 2 powi (- int (prec fmt))"
    by (simp add: q two_powi_add [symmetric] power_int_add_1 [symmetric] divide_eq_eq
        flip: power_int_add_1')
  also have "\<dots> \<le> \<bar>y\<bar> * 2 powi (- int (prec fmt))"
    using ilog2_bounds [OF y] by (intro mult_right_mono) simp_all
  finally show ?thesis using fround_error_quantum [OF r] by linarith
qed

text \<open>Everywhere the error is at most \<open>2^-p\<close> of the value plus half the least quantum.\<close>

lemma fround_abs_error:
  assumes r: "fround fmt y = Fin r" and p: "0 < prec fmt"
  shows "\<bar>r - y\<bar> \<le> \<bar>y\<bar> * 2 powi (- int (prec fmt)) + 2 powi qmin fmt / 2"
proof (cases "2 powi (qmin fmt + int (prec fmt) - 1) \<le> \<bar>y\<bar>")
  case True
  then show ?thesis using fround_rel_error [OF r p] by (simp add: add_increasing2)
next
  case False
  then have "y = 0 \<or> ilog2 \<bar>y\<bar> < qmin fmt + int (prec fmt) - 1"
    using ilog2_less_iff [of "\<bar>y\<bar>" "qmin fmt + int (prec fmt) - 1"] by force
  then have "y = 0 \<or> quantum fmt y = qmin fmt" by (auto simp: quantum_def)
  then show ?thesis
    using fround_error_quantum [OF r] r by (auto intro: add_increasing)
qed

lemma fround_rel_bounds:
  assumes r: "fround fmt y = Fin r" and p: "0 < prec fmt"
    and normal: "2 powi (qmin fmt + int (prec fmt) - 1) \<le> y"
  shows "y * (1 - 2 powi (- int (prec fmt))) \<le> r \<and> r \<le> y * (1 + 2 powi (- int (prec fmt)))"
proof -
  have "0 \<le> y" using normal less_le_trans [OF two_powi_pos] less_imp_le by blast
  then have "\<bar>r - y\<bar> \<le> y * 2 powi (- int (prec fmt))"
    using fround_rel_error [OF r p] normal by simp
  then show ?thesis by (simp add: algebra_simps abs_le_iff)
qed

lemma fround64_rel:
  assumes "fround binary64 y = Fin r" "1 / 2 ^ 1022 \<le> y"
  shows "y * (1 - 1 / 2 ^ 53) \<le> r \<and> r \<le> y * (1 + 1 / 2 ^ 53)"
  using fround_rel_bounds [OF assms(1)] assms(2) by (simp add: power_int_minus_divide)

lemma fround32_rel:
  assumes "fround binary32 y = Fin r" "1 / 2 ^ 126 \<le> y"
  shows "y * (1 - 1 / 2 ^ 24) \<le> r \<and> r \<le> y * (1 + 1 / 2 ^ 24)"
  using fround_rel_bounds [OF assms(1)] assms(2) by (simp add: power_int_minus_divide)

lemma fround32_abs:
  assumes "fround binary32 y = Fin r"
  shows "\<bar>r - y\<bar> \<le> \<bar>y\<bar> / 2 ^ 24 + 1 / 2 ^ 150"
  using fround_abs_error [OF assms] by (simp add: power_int_minus_divide)

lemma representable_nonzero_ge:
  assumes "representable fmt x" "x \<noteq> 0"
  shows "2 powi qmin fmt \<le> \<bar>x\<bar>"
proof -
  obtain K where x: "x = of_int K * 2 powi quantum fmt x" using assms(1) by (auto elim: representable_elim)
  then have "K \<noteq> 0" using assms(2) by auto
  then have "1 \<le> \<bar>real_of_int K\<bar>" by linarith
  moreover have "(2::real) powi qmin fmt \<le> 2 powi quantum fmt x" using quantum_ge_qmin by simp
  ultimately have "2 powi qmin fmt \<le> \<bar>real_of_int K\<bar> * 2 powi quantum fmt x"
    by (metis mult_mono mult_1 two_powi_pos less_imp_le abs_ge_zero)
  then show ?thesis by (subst x) (simp add: abs_mult)
qed

section \<open>Powers of \<open>1 +- 2^-53\<close>\<close>

lemma one_minus_pow_ge:
  assumes "0 \<le> u" "u \<le> 1"
  shows "1 - real n * u \<le> (1 - u) ^ n"
proof (induction n)
  case 0
  then show ?case by simp
next
  case (Suc n)
  have "1 - real (Suc n) * u \<le> (1 - real n * u) * (1 - u)"
    using assms by (simp add: algebra_simps)
  also have "\<dots> \<le> (1 - u) ^ n * (1 - u)"
    using Suc assms by (cases "1 - real n * u \<le> 0")
      (auto intro: mult_right_mono order_trans [OF _ zero_le_power])
  finally show ?case by (simp add: mult.commute)
qed

lemma one_plus_pow_le:
  assumes "0 \<le> u" "real n * u \<le> 1 / 2"
  shows "(1 + u) ^ n \<le> 1 + 2 * real n * u"
proof -
  have key: "(1 + u) ^ m * (1 - real m * u) \<le> 1" if "real m * u \<le> 1" for m
    using that
  proof (induction m)
    case 0
    then show ?case by simp
  next
    case (Suc m)
    have m: "real m * u \<le> 1" using Suc.prems assms(1) by (simp add: algebra_simps)
    have "(1 + u) * (1 - real (Suc m) * u) \<le> 1 - real m * u"
      using assms(1) by (simp add: algebra_simps)
    then have "(1 + u) ^ Suc m * (1 - real (Suc m) * u) \<le> (1 + u) ^ m * (1 - real m * u)"
      using assms(1) by (simp add: mult.assoc mult_left_mono)
    then show ?case using Suc.IH [OF m] by linarith
  qed
  have pos: "0 < 1 - real n * u" using assms(2) by simp
  have "(1 + u) ^ n \<le> 1 / (1 - real n * u)"
    using key [of n] assms(2) pos by (simp add: le_divide_eq)
  also have "\<dots> \<le> 1 + 2 * real n * u"
  proof -
    define a where "a = real n * u"
    have "0 \<le> a * (1 - 2 * a)" using assms by (simp add: a_def)
    then have "1 \<le> (1 + 2 * a) * (1 - a)" by (simp add: algebra_simps)
    then have "1 \<le> (1 + 2 * real n * u) * (1 - real n * u)" by (simp add: a_def mult.assoc)
    then show ?thesis using pos by (simp add: divide_le_eq)
  qed
  finally show ?thesis .
qed

section \<open>The rounded sum of squares\<close>

text \<open>Squares of \<open>f32\<close> samples are zero or at least \<open>2^-298\<close>; so is every partial sum.\<close>

definition tiny_or_zero :: "real \<Rightarrow> bool" where
  "tiny_or_zero y \<longleftrightarrow> y = 0 \<or> 1 / 2 ^ 298 \<le> y"

lemma square_tiny_or_zero:
  assumes "representable binary32 x"
  shows "tiny_or_zero (x * x)"
proof (cases "x = 0")
  case False
  have "(2::real) powi (-149) \<le> \<bar>x\<bar>"
    using representable_nonzero_ge [OF assms False] by simp
  then have "1 / 2 ^ 149 \<le> \<bar>x\<bar>" by (simp add: power_int_minus_divide)
  then have "1 / 2 ^ 149 * (1 / 2 ^ 149) \<le> \<bar>x\<bar> * \<bar>x\<bar>"
    by (intro mult_mono) simp_all
  then show ?thesis by (simp add: tiny_or_zero_def abs_mult [symmetric])
qed (simp add: tiny_or_zero_def)

lemma representable64_tiny: "representable binary64 (1 / 2 ^ 298)"
  using representable64_nat_mult [of 1 "-298"] by (simp add: power_int_minus_divide)

lemma rnd_add_rel:
  assumes "tiny_or_zero a" "tiny_or_zero y" "0 \<le> y" "y \<le> 1" "a \<le> real k" "Suc k < 2 ^ 53"
  shows "\<exists>r. fround binary64 (a + y) = Fin r \<and> tiny_or_zero r \<and> r \<le> real (Suc k)
    \<and> (a + y) * (1 - 1 / 2 ^ 53) \<le> r \<and> r \<le> (a + y) * (1 + 1 / 2 ^ 53)"
proof (cases "a + y = 0")
  case True
  then show ?thesis by (simp add: tiny_or_zero_def)
next
  case False
  have a0: "0 \<le> a" using assms(1) by (auto simp: tiny_or_zero_def intro: order_trans [rotated])
  then have lo: "1 / 2 ^ 298 \<le> a + y"
    using False assms(1-3) by (auto simp: tiny_or_zero_def)
  have hi: "a + y \<le> real (Suc k)" using assms(4,5) by simp
  have rk: "representable binary64 (real (Suc k))"
    using representable64_nat_mult [of "Suc k" 0] assms(6) by simp
  obtain r where r: "fround binary64 (a + y) = Fin r" "1 / 2 ^ 298 \<le> r" "r \<le> real (Suc k)"
    using fround_between [OF representable64_tiny rk lo hi] by auto
  have "(1::real) / 2 ^ 1022 \<le> 1 / 2 ^ 298" by simp
  then have "(a + y) * (1 - 1 / 2 ^ 53) \<le> r \<and> r \<le> (a + y) * (1 + 1 / 2 ^ 53)"
    using fround64_rel [OF r(1)] lo by linarith
  then show ?thesis using r by (simp add: tiny_or_zero_def)
qed

lemma rnd_sum_rel:
  assumes "list_all (\<lambda>y. tiny_or_zero y \<and> 0 \<le> y \<and> y \<le> 1) ys" "0 \<le> S"
    "S * (1 - 1 / 2 ^ 53) ^ k \<le> a" "a \<le> S * (1 + 1 / 2 ^ 53) ^ k"
    "tiny_or_zero a" "a \<le> real k" "k + length ys < 2 ^ 53"
  shows "\<exists>s. rnd_sum (Fin a) ys = Fin s \<and> tiny_or_zero s \<and> s \<le> real (k + length ys)
    \<and> (S + sum_list ys) * (1 - 1 / 2 ^ 53) ^ (k + length ys) \<le> s
    \<and> s \<le> (S + sum_list ys) * (1 + 1 / 2 ^ 53) ^ (k + length ys)"
  using assms
proof (induction ys arbitrary: a k S)
  case Nil
  then show ?case by simp
next
  case (Cons y ys)
  note y = Cons.prems(1) [simplified]
  obtain r where r: "fround binary64 (a + y) = Fin r" "tiny_or_zero r" "r \<le> real (Suc k)"
      "(a + y) * (1 - 1 / 2 ^ 53) \<le> r" "r \<le> (a + y) * (1 + 1 / 2 ^ 53)"
    using rnd_add_rel [of a y k] y Cons.prems(5-7) by auto
  have pl: "(1 - 1 / 2 ^ 53 :: real) ^ k \<le> 1" "1 \<le> (1 + 1 / 2 ^ 53 :: real) ^ k"
    by (simp_all add: power_le_one one_le_power)
  have "(S + y) * (1 - 1 / 2 ^ 53) ^ k \<le> a + y"
    using Cons.prems(3) mult_left_mono [OF pl(1), of y] y by (simp add: algebra_simps)
  then have lo: "(S + y) * (1 - 1 / 2 ^ 53) ^ Suc k \<le> r"
    using r(4) mult_right_mono [of _ "a + y" "1 - 1 / 2 ^ 53"] by (simp add: mult.assoc mult.commute order_trans)
  have "a + y \<le> (S + y) * (1 + 1 / 2 ^ 53) ^ k"
    using Cons.prems(4) mult_left_mono [OF pl(2), of y] y by (simp add: algebra_simps)
  then have hi: "r \<le> (S + y) * (1 + 1 / 2 ^ 53) ^ Suc k"
    using r(5) mult_right_mono [of "a + y" _ "1 + 1 / 2 ^ 53"] by (simp add: mult.assoc mult.commute order_trans)
  have "\<exists>s. rnd_sum (Fin r) ys = Fin s \<and> tiny_or_zero s \<and> s \<le> real (Suc k + length ys)
    \<and> (S + y + sum_list ys) * (1 - 1 / 2 ^ 53) ^ (Suc k + length ys) \<le> s
    \<and> s \<le> (S + y + sum_list ys) * (1 + 1 / 2 ^ 53) ^ (Suc k + length ys)"
    using y Cons.prems(2,7) r(2,3) lo hi by (intro Cons.IH) simp_all
  then show ?case using r(1) by (simp add: add.assoc)
qed

section \<open>The rounded RMS\<close>

lemma fround64_unit_rel:
  assumes "0 \<le> y" "y \<le> 1" "y = 0 \<or> 1 / 2 ^ 1022 \<le> y"
  shows "\<exists>r. fround binary64 y = Fin r \<and> 0 \<le> r \<and> r \<le> 1
    \<and> y * (1 - 1 / 2 ^ 53) \<le> r \<and> r \<le> y * (1 + 1 / 2 ^ 53)"
proof (cases "y = 0")
  case False
  obtain r where r: "fround binary64 y = Fin r" "0 \<le> r" "r \<le> 1"
    using fround_unit [of y binary64] assms(1,2) representable64_one by auto
  then show ?thesis using fround64_rel [OF r(1)] assms(3) False by blast
qed simp

lemma pow_error_bounds:
  assumes "k \<le> 2 ^ 29 + 2"
  shows "1 - 1 / 2 ^ 23 \<le> (1 - 1 / 2 ^ 53 :: real) ^ k \<and> (1 + 1 / 2 ^ 53 :: real) ^ k \<le> 1 + 1 / 2 ^ 22"
proof
  have k: "real k \<le> 2 ^ 29 + 2" using of_nat_mono [OF assms, where ?'a = real] by simp
  have "1 - 1 / 2 ^ 23 \<le> 1 - real k * (1 / 2 ^ 53 :: real)" using k by simp
  then show "1 - 1 / 2 ^ 23 \<le> (1 - 1 / 2 ^ 53 :: real) ^ k"
    using one_minus_pow_ge [of "1 / 2 ^ 53" k] by simp
  have "(1 + 1 / 2 ^ 53 :: real) ^ k \<le> 1 + 2 * real k * (1 / 2 ^ 53)"
    using k by (intro one_plus_pow_le) simp_all
  also have "\<dots> \<le> 1 + 1 / 2 ^ 22" using k by simp
  finally show "(1 + 1 / 2 ^ 53 :: real) ^ k \<le> 1 + 1 / 2 ^ 22" .
qed

lemma sqrt_between:
  assumes "0 \<le> m" "0 \<le> E" "E \<le> 1" "1 \<le> F" "mu * E \<le> m" "m \<le> mu * F"
  shows "sqrt mu * E \<le> sqrt m \<and> sqrt m \<le> sqrt mu * F"
proof
  have "0 \<le> mu * F" using assms(1,6) by linarith
  then have mu: "0 \<le> mu" using assms(4) by (simp add: zero_le_mult_iff)
  have "E * E \<le> E" using mult_left_le_one_le [OF assms(2,2,3)] .
  then have "E \<le> sqrt E" using assms(2) by (intro real_le_rsqrt) (simp add: power2_eq_square)
  then have "sqrt mu * E \<le> sqrt mu * sqrt E" by (rule mult_left_mono) (simp add: mu)
  also have "\<dots> \<le> sqrt m" using assms(5) by (simp add: real_sqrt_mult [symmetric])
  finally show "sqrt mu * E \<le> sqrt m" .
  have "F \<le> F * F" using assms(4) by (simp add: mult_le_cancel_left1)
  then have "sqrt F \<le> F" using real_sqrt_le_mono [of F "F * F"] assms(4) by simp
  have "sqrt m \<le> sqrt mu * sqrt F" using assms(6) by (simp add: real_sqrt_mult [symmetric])
  also have "\<dots> \<le> sqrt mu * F" using \<open>sqrt F \<le> F\<close> by (rule mult_left_mono) (simp add: mu)
  finally show "sqrt m \<le> sqrt mu * F" .
qed

lemma rel_to_abs:
  fixes rho :: real
  assumes "0 \<le> rho" "rho * E \<le> q" "q \<le> rho * F" "1 - e \<le> E" "F \<le> 1 + e"
  shows "\<bar>q - rho\<bar> \<le> rho * e"
proof -
  have "rho * (1 - e) \<le> rho * E" "rho * F \<le> rho * (1 + e)"
    by (rule mult_left_mono [OF assms(4,1)], rule mult_left_mono [OF assms(5,1)])
  then show ?thesis using assms(2,3) by (simp add: abs_le_iff algebra_simps)
qed

lemma calculate_rms_rnd_err:
  assumes c: "list_all (\<lambda>x. representable binary32 x \<and> \<bar>x\<bar> \<le> 1) c" "c \<noteq> []"
    "length c \<le> 2 ^ 29"
  shows "\<exists>v. calculate_rms rnd_ops (map Fin c) = Fin v \<and> 0 \<le> v \<and> v \<le> 1
    \<and> \<bar>v - calculate_rms real_ops c\<bar> \<le> calculate_rms real_ops c / 2 ^ 20 + 1 / 2 ^ 150"
proof -
  define n where "n = length c"
  define S where "S = sum_list (map (\<lambda>x. x * x) c)"
  let ?E = "(1 - 1 / 2 ^ 53 :: real) ^ (n + 2)" and ?F = "(1 + 1 / 2 ^ 53 :: real) ^ (n + 2)"
  have n: "0 < real n" "real n \<le> 2 ^ 29" "n < 2 ^ 53"
    using c(2,3) of_nat_mono [OF c(3), where ?'a = real] by (simp_all add: n_def)
  have c32: "list_all (representable binary32) c" using c(1) by (simp add: list_all_iff)
  have le1: "y * y \<le> 1" if "\<bar>y\<bar> \<le> 1" for y :: real
    using mult_mono [of "\<bar>y\<bar>" 1 "\<bar>y\<bar>" 1] that by (simp add: abs_mult [symmetric])
  have sq: "list_all (\<lambda>y. tiny_or_zero y \<and> 0 \<le> y \<and> y \<le> 1) (map (\<lambda>x. x * x) c)"
    using c(1) by (auto simp: list_all_iff le1 square_tiny_or_zero)
  obtain s where s: "sum_sq rnd_ops (map Fin c) = Fin s" "tiny_or_zero s" "s \<le> real n"
      "S * (1 - 1 / 2 ^ 53) ^ n \<le> s" "s \<le> S * (1 + 1 / 2 ^ 53) ^ n"
    using rnd_sum_rel [OF sq, of 0 0 0] n(3)
    by (auto simp: sum_sq_rnd [OF c32] S_def n_def tiny_or_zero_def)
  have S0: "0 \<le> S" by (simp add: S_def sum_list_nonneg)
  have s0: "0 \<le> s" using s(2) by (auto simp: tiny_or_zero_def intro: order_trans [rotated])
  \<comment> \<open>the mean\<close>
  have sn: "s = 0 \<or> 1 / 2 ^ 298 / 2 ^ 29 \<le> s / real n"
  proof (cases "s = 0")
    case False
    then have "1 / 2 ^ 298 \<le> s" using s(2) by (simp add: tiny_or_zero_def)
    then show ?thesis using n by (auto intro: frac_le)
  qed simp
  have nb: "(1::real) / 2 ^ 1022 \<le> 1 / 2 ^ 298 / 2 ^ 29" by simp
  have "s / real n = 0 \<or> 1 / 2 ^ 1022 \<le> s / real n"
  proof (cases "s = 0")
    case False
    then show ?thesis using sn order_trans [OF nb] by blast
  qed simp
  then obtain m where m: "fround binary64 (s / real n) = Fin m" "0 \<le> m" "m \<le> 1"
      "s / real n * (1 - 1 / 2 ^ 53) \<le> m" "m \<le> s / real n * (1 + 1 / 2 ^ 53)"
    using fround64_unit_rel [of "s / real n"] s0 s(3) n(1) by (auto simp: divide_le_eq)
  have m_lo: "S / real n * (1 - 1 / 2 ^ 53) ^ Suc n \<le> m"
    using order_trans [OF mult_right_mono [OF divide_right_mono [OF s(4)]] m(4)] n(1)
    by (simp add: mult.assoc mult.commute)
  have m_hi: "m \<le> S / real n * (1 + 1 / 2 ^ 53) ^ Suc n"
    using order_trans [OF m(5) mult_right_mono [OF divide_right_mono [OF s(5)]]] n(1)
    by (simp add: mult.assoc mult.commute)
  \<comment> \<open>the root\<close>
  have "sqrt m = 0 \<or> 1 / 2 ^ 1022 \<le> sqrt m"
  proof (cases "m = 0")
    case False
    then have "s \<noteq> 0" using m(1) by auto
    then have "1 / 2 ^ 298 / 2 ^ 29 * (1 - 1 / 2 ^ 53) \<le> s / real n * (1 - 1 / 2 ^ 53)"
      using sn by (intro mult_right_mono) simp_all
    then have "1 / 2 ^ 298 / 2 ^ 29 * (1 - 1 / 2 ^ 53) \<le> m" using m(4) by linarith
    then have "(1 / 2 ^ 1022) ^ 2 \<le> m" by (rule order_trans [rotated]) (simp add: power2_eq_square)
    then have "1 / 2 ^ 1022 \<le> sqrt m" by (rule real_le_rsqrt)
    then show ?thesis by blast
  qed simp
  then obtain q where q: "fround binary64 (sqrt m) = Fin q" "0 \<le> q" "q \<le> 1"
      "sqrt m * (1 - 1 / 2 ^ 53) \<le> q" "q \<le> sqrt m * (1 + 1 / 2 ^ 53)"
    using fround64_unit_rel [of "sqrt m"] m(2,3) by auto
  have E0: "0 \<le> (1 - 1 / 2 ^ 53 :: real) ^ Suc n" by (rule zero_le_power) simp
  have E1: "(1 - 1 / 2 ^ 53 :: real) ^ Suc n \<le> 1" by (rule power_le_one) simp_all
  have F1: "1 \<le> (1 + 1 / 2 ^ 53 :: real) ^ Suc n" by (rule one_le_power) simp
  have "sqrt (S / real n) * (1 - 1 / 2 ^ 53) ^ Suc n \<le> sqrt m
    \<and> sqrt m \<le> sqrt (S / real n) * (1 + 1 / 2 ^ 53) ^ Suc n"
    by (rule sqrt_between [OF m(2) E0 E1 F1 m_lo m_hi])
  then have sm: "sqrt (S / real n) * (1 - 1 / 2 ^ 53) ^ Suc n \<le> sqrt m"
      "sqrt m \<le> sqrt (S / real n) * (1 + 1 / 2 ^ 53) ^ Suc n" by simp_all
  have "sqrt (S / real n) * ?E = sqrt (S / real n) * (1 - 1 / 2 ^ 53) ^ Suc n * (1 - 1 / 2 ^ 53)"
    by (simp only: add_2_eq_Suc' power_Suc2 mult.assoc)
  also have "\<dots> \<le> sqrt m * (1 - 1 / 2 ^ 53)" using sm(1) by (rule mult_right_mono) simp
  also have "\<dots> \<le> q" by (rule q(4))
  finally have q_lo: "sqrt (S / real n) * ?E \<le> q" .
  have "q \<le> sqrt m * (1 + 1 / 2 ^ 53)" by (rule q(5))
  also have "\<dots> \<le> sqrt (S / real n) * (1 + 1 / 2 ^ 53) ^ Suc n * (1 + 1 / 2 ^ 53)"
    using sm(2) by (rule mult_right_mono) simp
  also have "\<dots> = sqrt (S / real n) * ?F" by (simp only: add_2_eq_Suc' power_Suc2 mult.assoc)
  finally have q_hi: "q \<le> sqrt (S / real n) * ?F" .
  \<comment> \<open>the cast to f32\<close>
  obtain v where v: "fround binary32 q = Fin v" "0 \<le> v" "v \<le> 1"
    using fround_unit [of q binary32] q(2,3) representable32_consts(1) by auto
  have rnd: "calculate_rms rnd_ops (map Fin c) = Fin v"
    using c(2) n(3) s(1) n(1) m(1) m(2) q(1) v(1)
    by (simp add: calculate_rms_def fround64_nat n_def)
  have rho: "calculate_rms real_ops c = sqrt (S / real n)"
    using c(2) by (simp add: calculate_rms_real S_def n_def)
  have EF: "1 - 1 / 2 ^ 23 \<le> ?E" "?F \<le> 1 + 1 / 2 ^ 22"
    using pow_error_bounds [of "n + 2"] c(3) by (simp_all add: n_def)
  define rho where "rho = sqrt (S / real n)"
  have r0: "0 \<le> rho" by (simp add: rho_def S0)
  have "1 - 1 / 2 ^ 22 \<le> ?E" by (rule order_trans [OF _ EF(1)]) simp
  then have "\<bar>q - rho\<bar> \<le> rho * (1 / 2 ^ 22)"
    by (rule rel_to_abs [OF r0 q_lo [folded rho_def] q_hi [folded rho_def] _ EF(2)])
  then have qr: "q - rho \<le> rho * (1 / 2 ^ 22)" "- (q - rho) \<le> rho * (1 / 2 ^ 22)"
    by (simp_all only: abs_le_iff)
  have "\<bar>v - q\<bar> \<le> q / 2 ^ 24 + 1 / 2 ^ 150"
    using fround32_abs [OF v(1)] q(2) by simp
  then have vq: "v - q \<le> q / 2 ^ 24 + 1 / 2 ^ 150" "- (v - q) \<le> q / 2 ^ 24 + 1 / 2 ^ 150"
    by (simp_all only: abs_le_iff)
  have "\<bar>v - rho\<bar> \<le> rho / 2 ^ 20 + 1 / 2 ^ 150"
  proof -
    have p: "(2::real) ^ 22 = 4194304" "(2::real) ^ 24 = 16777216" "(2::real) ^ 20 = 1048576"
      by simp_all
    show ?thesis unfolding abs_le_iff using qr vq r0 unfolding p by (intro conjI) linarith+
  qed
  then show ?thesis using rnd rho v(2,3) by (simp add: rho_def)
qed

section \<open>The decibel error\<close>

lemma ln_rel_diff:
  fixes a b e :: real
  assumes "0 < b" "\<bar>a - b\<bar> \<le> b * e" "0 \<le> e" "e \<le> 1 / 2"
  shows "\<bar>ln a - ln b\<bar> \<le> 2 * e"
proof -
  define x where "x = a / b"
  have a: "a = b * x" using assms(1) by (simp add: x_def)
  have "\<bar>b * (x - 1)\<bar> \<le> b * e" using assms(2) by (simp add: a algebra_simps)
  then have x1: "\<bar>x - 1\<bar> \<le> e" using assms(1) by (simp add: abs_mult)
  then have x0: "1 / 2 \<le> x" using assms(4) by linarith
  then have "ln a - ln b = ln x" using assms(1) by (simp add: a ln_mult)
  moreover have "ln x \<le> e" using ln_le_minus_one [of x] x0 x1 by simp
  moreover have "- (2 * e) \<le> ln x"
  proof -
    have "ln (1 / x) \<le> 1 / x - 1" using x0 by (intro ln_le_minus_one) simp
    moreover have "1 / x - 1 = (1 - x) / x" using x0 by (simp add: field_simps)
    moreover have "(1 - x) / x \<le> e / (1 / 2)"
      using x0 x1 assms(3) by (intro frac_le) simp_all
    ultimately show ?thesis using x0 by (simp add: ln_div)
  qed
  ultimately show ?thesis by simp
qed

lemma log10_rel_diff:
  fixes a b e :: real
  assumes "0 < b" "\<bar>a - b\<bar> \<le> b * e" "0 \<le> e" "e \<le> 1 / 2"
  shows "\<bar>log 10 a - log 10 b\<bar> \<le> 3 * e"
proof -
  have "\<bar>log 10 a - log 10 b\<bar> = \<bar>ln a - ln b\<bar> / ln 10"
    by (simp add: log_def diff_divide_distrib [symmetric])
  also have "\<dots> \<le> (2 * e) / (9 / 10)"
    using ln_rel_diff [OF assms] ln_10_ge assms(3) by (intro frac_le) simp_all
  also have "\<dots> \<le> 3 * e" using assms(3) by simp
  finally show ?thesis .
qed

lemma max_diff_le:
  fixes v rho m M :: real
  assumes "\<bar>v - rho\<bar> \<le> e" "\<bar>m - M\<bar> \<le> e"
  shows "\<bar>max v m - max rho M\<bar> \<le> e"
  using assms by (simp add: max_def abs_le_iff)

lemma rms_to_dbfs_rnd_err:
  assumes v: "0 \<le> v" "v \<le> 1" and rho: "0 \<le> rho" "\<bar>v - rho\<bar> \<le> rho / 2 ^ 20 + 1 / 2 ^ 150"
  shows "\<exists>d. rms_to_dbfs rnd_ops (Fin v) = Fin d \<and> \<bar>d - rms_to_dbfs real_ops rho\<bar> \<le> 1 / 1000"
proof -
  obtain m where m: "fround binary32 MIN_RMS = Fin m" "2 powi (-34) \<le> m" "m \<le> 1"
    using MIN_RMS_f32 by blast
  have "(1::real) / 2 ^ 126 \<le> MIN_RMS" by (simp add: MIN_RMS_def)
  then have "MIN_RMS * (1 - 1 / 2 ^ 24) \<le> m \<and> m \<le> MIN_RMS * (1 + 1 / 2 ^ 24)"
    by (rule fround32_rel [OF m(1)])
  then have mM: "\<bar>m - MIN_RMS\<bar> \<le> MIN_RMS * (1 / 2 ^ 24)"
    by (intro rel_to_abs [of MIN_RMS "1 - 1 / 2 ^ 24" m "1 + 1 / 2 ^ 24"]) simp_all
  define b where "b = max rho MIN_RMS"
  define a where "a = max v m"
  have b: "MIN_RMS \<le> b" "rho \<le> b" by (simp_all add: b_def)
  have b0: "0 < b" using b(1) MIN_RMS_pos by linarith
  have tiny: "(1::real) / 2 ^ 150 \<le> MIN_RMS / 2 ^ 20" by (simp add: MIN_RMS_def)
  have "\<bar>v - rho\<bar> \<le> b * (1 / 2 ^ 19)"
    using rho(2) tiny b(1,2) by (simp add: divide_right_mono)
  moreover have "MIN_RMS * (1 / 2 ^ 24) \<le> b * (1 / 2 ^ 19)"
    using b(1) b0 by (intro mult_mono) simp_all
  then have "\<bar>m - MIN_RMS\<bar> \<le> b * (1 / 2 ^ 19)" using mM by linarith
  ultimately have "\<bar>a - b\<bar> \<le> b * (1 / 2 ^ 19)" unfolding a_def b_def by (rule max_diff_le)
  then have ab: "\<bar>log 10 a - log 10 b\<bar> \<le> 3 * (1 / 2 ^ 19)"
    using b0 by (intro log10_rel_diff) simp_all
  have a: "2 powi (-34) \<le> a" "a \<le> 1" "0 < a"
    using m v by (auto simp: a_def intro: less_le_trans [OF two_powi_pos])
  have L: "-11 \<le> log 10 a" "log 10 a \<le> 0" using a by (simp_all add: log10_ge_minus_11)
  then obtain l where l: "fround binary32 (log 10 a) = Fin l" "-11 \<le> l" "l \<le> 0"
    using fround_between [of binary32 "-11" 0 "log 10 a"] representable32_consts by auto
  have "-220 \<le> 20 * l" "20 * l \<le> 0" using l by simp_all
  then obtain d where d: "fround binary32 (20 * l) = Fin d"
    using fround_between [of binary32 "-220" 0 "20 * l"] representable32_consts by auto
  have run: "rms_to_dbfs rnd_ops (Fin v) = Fin d"
    using m(1) a(3) l(1) d(1) representable32_consts(2)
    by (simp add: rms_to_dbfs_def a_def [symmetric] fround_representable not_less_iff_gr_or_eq)
  have el: "\<bar>l - log 10 a\<bar> \<le> 11 / 2 ^ 24 + 1 / 2 ^ 150"
    using fround32_abs [OF l(1)] L by simp
  have ed: "\<bar>d - 20 * l\<bar> \<le> 220 / 2 ^ 24 + 1 / 2 ^ 150"
    using fround32_abs [OF d(1)] l(2,3) by simp
  have exact: "rms_to_dbfs real_ops rho = 20 * log 10 b" by (simp add: rms_to_dbfs_real b_def)
  have "\<bar>d - 20 * log 10 b\<bar> \<le> 1 / 1000"
  proof -
    have p: "(2::real) ^ 24 = 16777216" "(2::real) ^ 19 = 524288" by simp_all
    have t: "(1::real) / 2 ^ 150 \<le> 1 / 1000000000" by simp
    show ?thesis using ab el ed t unfolding abs_le_iff p by (elim conjE) (intro conjI; linarith)
  qed
  then show ?thesis using run exact by simp
qed

lemma chunk_dbfs_rnd_err:
  assumes "list_all (\<lambda>x. representable binary32 x \<and> \<bar>x\<bar> \<le> 1) c" "c \<noteq> []" "length c \<le> 2 ^ 29"
  shows "\<exists>d. rms_to_dbfs rnd_ops (calculate_rms rnd_ops (map Fin c)) = Fin d
    \<and> \<bar>d - rms_to_dbfs real_ops (calculate_rms real_ops c)\<bar> \<le> 1 / 1000"
proof -
  obtain v where v: "calculate_rms rnd_ops (map Fin c) = Fin v" "0 \<le> v" "v \<le> 1"
      "\<bar>v - calculate_rms real_ops c\<bar> \<le> calculate_rms real_ops c / 2 ^ 20 + 1 / 2 ^ 150"
    using calculate_rms_rnd_err [OF assms] by blast
  have "0 \<le> calculate_rms real_ops c" by (simp add: calculate_rms_real sum_list_nonneg)
  then show ?thesis using rms_to_dbfs_rnd_err [OF v(2,3) _ v(4)] v(1) by simp
qed

lemma full_scale_chunks:
  assumes "list_all (\<lambda>x. representable binary32 x \<and> \<bar>x\<bar> \<le> 1) pcm" "4 * length pcm \<le> isize_max"
    "c \<in> set (chunks k pcm)"
  shows "list_all (\<lambda>x. representable binary32 x \<and> \<bar>x\<bar> \<le> 1) c \<and> c \<noteq> [] \<and> length c \<le> 2 ^ 29"
  using chunk_of_chunks [OF assms(3)] assms(1,2) by (auto simp: list_all_iff isize_max_def)

section \<open>Properties\<close>

text \<open>
  C30: the spec's property that the RMS of \<open>N\<close> identical samples of magnitude \<open>a\<close> is
  \<open>a\<close> within floating-point tolerance holds on the target arithmetic: for every \<open>f32\<close>
  sample \<open>a\<close> in the full-scale range and every length up to \<open>2^29\<close>, the rounded
  \<open>calculate_rms\<close> returns a finite value within \<open>2^-20\<close> of \<open>|a|\<close>, relatively, plus
  \<open>2^-150\<close> (half the least \<open>f32\<close> subnormal).
\<close>

theorem calculate_rms_rnd_replicate:
  assumes "0 < n" "n \<le> 2 ^ 29" "representable binary32 a" "\<bar>a\<bar> \<le> 1"
  shows "\<exists>v. calculate_rms rnd_ops (replicate n (Fin a)) = Fin v
    \<and> \<bar>v - \<bar>a\<bar>\<bar> \<le> \<bar>a\<bar> / 2 ^ 20 + 1 / 2 ^ 150"
proof -
  have c: "list_all (\<lambda>x. representable binary32 x \<and> \<bar>x\<bar> \<le> 1) (replicate n a)"
    using assms(3,4) by (simp add: list_all_iff)
  have "calculate_rms real_ops (replicate n a) = \<bar>a\<bar>"
    using assms(1) by (simp add: calculate_rms_real sum_list_replicate)
  then show ?thesis using calculate_rms_rnd_err [OF c] assms(1,2) by (simp add: map_replicate) blast
qed

theorem calculate_rms_rnd_replicate_witness:
  "0 < (4::nat) \<and> (4::nat) \<le> 2 ^ 29 \<and> representable binary32 1 \<and> \<bar>1::real\<bar> \<le> 1
   \<and> (\<exists>v. calculate_rms rnd_ops (replicate 4 (Fin 1)) = Fin v
        \<and> \<bar>v - \<bar>1\<bar>\<bar> \<le> \<bar>1::real\<bar> / 2 ^ 20 + 1 / 2 ^ 150)"
  using calculate_rms_rnd_replicate [of 4 1] representable32_consts(1) by simp

text \<open>
  C31: the analyser computed with IEEE rounding refines the exact-real analyser within
  0.001 dB. For a buffer of full-scale \<open>f32\<close> samples that fits in wasm32 memory, whenever
  the rounded analyser returns a result, the exact analyser returns one of the same
  length, and each rounded decibel value is finite and within 0.001 dB of the exact one
  at the same index.
\<close>

theorem analyze_rnd_refines_real:
  assumes pcm: "list_all (\<lambda>x. representable binary32 x \<and> \<bar>x\<bar> \<le> 1) pcm"
    and fits: "4 * length pcm \<le> isize_max"
    and run: "analyze_audio_rms b rnd_ops (map Fin pcm) n = Some (Inr r)"
  shows "\<exists>r'. analyze_audio_rms b real_ops pcm n = Some (Inr r')
    \<and> list_all2 (\<lambda>v x. \<exists>d. v = Fin d \<and> \<bar>d - x\<bar> \<le> 1 / 1000) r r'"
proof -
  let ?R = "map (\<lambda>c. rms_to_dbfs real_ops (calculate_rms real_ops c)) (chunks (unat n) pcm)"
  have fits': "4 * length (map Fin pcm) \<le> isize_max" using fits by simp
  have r: "r = map (\<lambda>c. rms_to_dbfs rnd_ops (calculate_rms rnd_ops (map Fin c))) (chunks (unat n) pcm)"
    using analyze_audio_rms_Inr [OF fits' run] by (simp add: chunks_map)
  have exact: "analyze_audio_rms b real_ops pcm n = Some (Inr ?R)"
  proof (cases b)
    case Release
    then show ?thesis using analyze_audio_rms_Release_result [OF fits] by simp
  next
    case Debug
    then show ?thesis
      using run analyze_audio_rms_Debug_result [OF fits, of real_ops n]
        analyze_audio_rms_Debug_result [OF fits', of rnd_ops n]
      by (auto split: if_splits)
  qed
  have "list_all2 (\<lambda>v x. \<exists>d. v = Fin d \<and> \<bar>d - x\<bar> \<le> 1 / 1000) r ?R"
    unfolding r list.rel_map
    by (rule list.rel_refl_strong) (use full_scale_chunks [OF pcm fits] chunk_dbfs_rnd_err in blast)
  then show ?thesis using exact by blast
qed

theorem analyze_rnd_refines_real_witness:
  "list_all (\<lambda>x. representable binary32 x \<and> \<bar>x\<bar> \<le> 1) [1, 1, 1]
   \<and> 4 * length [1, 1, 1 :: real] \<le> isize_max
   \<and> analyze_audio_rms Release rnd_ops (map Fin [1, 1, 1]) 2
       = Some (Inr [rms_to_dbfs rnd_ops (calculate_rms rnd_ops [Fin 1, Fin 1]),
                    rms_to_dbfs rnd_ops (calculate_rms rnd_ops [Fin 1])])
   \<and> (\<exists>r'. analyze_audio_rms Release real_ops [1, 1, 1] 2 = Some (Inr r')
       \<and> list_all2 (\<lambda>v x. \<exists>d. v = Fin d \<and> \<bar>d - x\<bar> \<le> 1 / 1000)
           [rms_to_dbfs rnd_ops (calculate_rms rnd_ops [Fin 1, Fin 1]),
            rms_to_dbfs rnd_ops (calculate_rms rnd_ops [Fin 1])] r')"
proof -
  have pcm: "list_all (\<lambda>x. representable binary32 x \<and> \<bar>x\<bar> \<le> 1) [1, 1, 1 :: real]"
    using representable32_consts(1) by simp
  have fits: "4 * length [1, 1, 1 :: real] \<le> isize_max" by (simp add: isize_max_def)
  have run: "analyze_audio_rms Release rnd_ops (map Fin [1, 1, 1]) 2
       = Some (Inr [rms_to_dbfs rnd_ops (calculate_rms rnd_ops [Fin 1, Fin 1]),
                    rms_to_dbfs rnd_ops (calculate_rms rnd_ops [Fin 1])])"
    using analyze_audio_rms_Release_result [of "map Fin [1, 1, 1 :: real]" rnd_ops 2]
    by (simp add: chunks_step chunks_short isize_max_def)
  show ?thesis using pcm fits run analyze_rnd_refines_real [OF pcm fits run] by blast
qed

end
