(* ===== verification/Rounded_Monotone.thy ===== *)
theory Rounded_Monotone
  imports Rounded_Arith
begin

text \<open>
  Monotonicity of the analyser under IEEE rounding. Rounding to nearest is nearest: no
  representable value is closer to the exact result than the rounded one
  (\<open>fround_nearest\<close>, the \<open>is_closest\<close> property of the IEEE standard); hence rounding is
  monotone (\<open>fround_mono\<close>), and every step of \<open>calculate_rms\<close> (the \<open>f64\<close> fold of
  squares, the mean, the root, the cast to \<open>f32\<close>) and of \<open>rms_to_dbfs\<close> (the clamp,
  \<open>log10\<close>, the product) preserves the order of its finite arguments. The spec's
  monotonicity property (section 8: scaling a chunk up never lowers its decibel value)
  therefore holds on the target arithmetic, not only for exact reals.
\<close>

section \<open>Rounding to nearest is nearest and monotone\<close>

lemma round_even_nearest:
  "\<bar>of_int (round_even t) - t\<bar> \<le> t - of_int \<lfloor>t\<rfloor> \<and> \<bar>of_int (round_even t) - t\<bar> \<le> of_int \<lceil>t\<rceil> - t"
proof (cases "t = of_int \<lfloor>t\<rfloor>")
  case True
  then have "round_even t = \<lfloor>t\<rfloor>" "\<lceil>t\<rceil> = \<lfloor>t\<rfloor>"
    by (simp_all add: round_even_def) (metis ceiling_of_int True)
  then show ?thesis using True by simp
next
  case False
  then have c: "of_int \<lceil>t\<rceil> = of_int \<lfloor>t\<rfloor> + (1::real)"
    by (simp add: ceiling_altdef)
  have f: "of_int \<lfloor>t\<rfloor> \<le> t" "t < of_int \<lfloor>t\<rfloor> + 1" by simp_all
  show ?thesis using c f by (auto simp: round_even_def Let_def)
qed

lemma fround_nearest:
  assumes r: "fround fmt y = Fin r" and c: "representable fmt c" and p: "0 < prec fmt"
  shows "\<bar>r - y\<bar> \<le> \<bar>c - y\<bar>"
proof (cases "y = 0")
  case True
  then show ?thesis using r by (simp add: fround_def)
next
  case False
  define q where "q = quantum fmt y"
  define t where "t = y / 2 powi q"
  have y: "y = t * 2 powi q" by (simp add: t_def)
  have rr: "r = of_int (round_even t) * 2 powi q"
    using r False by (simp add: fround_def Let_def q_def t_def split: if_splits)
  have d: "\<bar>r - y\<bar> = \<bar>of_int (round_even t) - t\<bar> * 2 powi q"
    by (simp add: rr y abs_mult left_diff_distrib [symmetric])
  note n = round_even_nearest [of t]
  show ?thesis
  proof (cases "c \<le> y")
    case True
    have "c \<le> of_int \<lfloor>t\<rfloor> * 2 powi q"
      using representable_le_floor [OF c True False p] by (simp add: q_def t_def)
    moreover have "\<bar>r - y\<bar> \<le> (t - of_int \<lfloor>t\<rfloor>) * 2 powi q"
      using n by (simp add: d mult_right_mono)
    ultimately show ?thesis using True by (simp add: y algebra_simps)
  next
    case False
    then have cy: "y \<le> c" by simp
    have "of_int \<lceil>t\<rceil> * 2 powi q \<le> c"
      using representable_ge_ceiling [OF c cy \<open>y \<noteq> 0\<close> p] by (simp add: q_def t_def)
    moreover have "\<bar>r - y\<bar> \<le> (of_int \<lceil>t\<rceil> - t) * 2 powi q"
      using n by (simp add: d mult_right_mono)
    ultimately show ?thesis using cy by (simp add: y algebra_simps)
  qed
qed

lemma fround_mono:
  assumes xy: "x \<le> y" and a: "fround fmt x = Fin a" and b: "fround fmt y = Fin b"
    and p: "0 < prec fmt"
  shows "a \<le> b"
proof (rule ccontr)
  assume "\<not> a \<le> b"
  then have ba: "b < a" by simp
  have "x \<noteq> y" using a b ba by auto
  then have xy': "x < y" using xy by simp
  have n1: "\<bar>a - x\<bar> \<le> \<bar>b - x\<bar>"
    using fround_nearest [OF a fround_Fin_representable [OF b p] p] .
  have n2: "\<bar>b - y\<bar> \<le> \<bar>a - y\<bar>"
    using fround_nearest [OF b fround_Fin_representable [OF a p] p] .
  have "(a + b) / 2 \<le> x" using n1 ba by (simp add: abs_le_iff abs_if split: if_splits)
  moreover have "y \<le> (a + b) / 2" using n2 ba by (simp add: abs_le_iff abs_if split: if_splits)
  ultimately show False using xy' by simp
qed

lemma fround_unit_mono:
  assumes "0 \<le> x" "x \<le> y" "y \<le> 1" "representable fmt 1" "0 < prec fmt"
  shows "\<exists>a b. fround fmt x = Fin a \<and> fround fmt y = Fin b \<and> 0 \<le> a \<and> a \<le> b \<and> b \<le> 1"
proof -
  obtain a where a: "fround fmt x = Fin a" "0 \<le> a"
    using fround_unit [of x fmt] assms by auto
  obtain b where b: "fround fmt y = Fin b" "b \<le> 1"
    using fround_unit [of y fmt] assms by auto
  show ?thesis using a b fround_mono [OF assms(2) a(1) b(1) assms(5)] by blast
qed

section \<open>The steps of the analyser are monotone\<close>

lemma rnd_sum_mono:
  assumes "list_all2 (\<lambda>y y'. 0 \<le> y \<and> y \<le> y' \<and> y' \<le> 1) ys ys'" "0 \<le> a" "a \<le> a'"
    "a' \<le> real k" "k + length ys < 2 ^ 53"
  shows "\<exists>s s'. rnd_sum (Fin a) ys = Fin s \<and> rnd_sum (Fin a') ys' = Fin s'
    \<and> 0 \<le> s \<and> s \<le> s' \<and> s' \<le> real (k + length ys)"
  using assms
proof (induction ys ys' arbitrary: a a' k rule: list_all2_induct)
  case Nil
  then show ?case by simp
next
  case (Cons y ys y' ys')
  have rk: "representable binary64 (real (Suc k))"
    using representable64_nat_mult [of "Suc k" 0] Cons.prems(4) by simp
  have le: "0 \<le> a + y" "a + y \<le> a' + y'" "a' + y' \<le> real (Suc k)"
    using Cons.hyps(1) Cons.prems(1-3) by simp_all
  obtain t where t: "fround binary64 (a + y) = Fin t" "0 \<le> t"
    using fround_between [OF representable_0 rk le(1)] le by auto
  obtain t' where t': "fround binary64 (a' + y') = Fin t'" "t' \<le> real (Suc k)"
    using fround_between [OF representable_0 rk _ le(3)] le by auto
  have "t \<le> t'" using fround_mono [OF le(2) t(1) t'(1)] by simp
  then have "\<exists>s s'. rnd_sum (Fin t) ys = Fin s \<and> rnd_sum (Fin t') ys' = Fin s'
    \<and> 0 \<le> s \<and> s \<le> s' \<and> s' \<le> real (Suc k + length ys)"
    using Cons.prems(4) t t' by (intro Cons.IH) simp_all
  then show ?case using t(1) t'(1) by simp
qed

lemma calculate_rms_rnd_mono:
  assumes dom: "list_all2 (\<lambda>x y. \<bar>x\<bar> \<le> \<bar>y\<bar>) c c'"
    and c32: "list_all (representable binary32) c"
    and c'32: "list_all (\<lambda>y. representable binary32 y \<and> \<bar>y\<bar> \<le> 1) c'"
    and ne: "c \<noteq> []" and len: "length c < 2 ^ 53"
  shows "\<exists>r r'. calculate_rms rnd_ops (map Fin c) = Fin r \<and> calculate_rms rnd_ops (map Fin c') = Fin r'
    \<and> 0 \<le> r \<and> r \<le> r' \<and> r' \<le> 1"
proof -
  have n': "length c' = length c" using list_all2_lengthD [OF dom] by simp
  have ne': "c' \<noteq> []" using ne n' by auto
  have c'32': "list_all (representable binary32) c'" using c'32 by (simp add: list_all_iff)
  have le1: "y * y \<le> 1" if "\<bar>y\<bar> \<le> 1" for y :: real
    using mult_mono [of "\<bar>y\<bar>" 1 "\<bar>y\<bar>" 1] that by (simp add: abs_mult [symmetric])
  have sq: "x * x \<le> y * y" if "\<bar>x\<bar> \<le> \<bar>y\<bar>" for x y :: real
    using mult_mono [OF that that] by (simp add: abs_mult [symmetric])
  have sqs: "list_all2 (\<lambda>y y'. 0 \<le> y \<and> y \<le> y' \<and> y' \<le> 1) (map (\<lambda>x. x * x) c) (map (\<lambda>x. x * x) c')"
    using dom c'32 by (auto simp: list_all2_conv_all_nth list_all_length sq le1)
  have "\<exists>s s'. rnd_sum (Fin 0) (map (\<lambda>x. x * x) c) = Fin s
      \<and> rnd_sum (Fin 0) (map (\<lambda>x. x * x) c') = Fin s'
      \<and> 0 \<le> s \<and> s \<le> s' \<and> s' \<le> real (0 + length (map (\<lambda>x. x * x) c))"
    by (rule rnd_sum_mono [OF sqs]) (use len in simp_all)
  then obtain s s' where s: "rnd_sum (Fin 0) (map (\<lambda>x. x * x) c) = Fin s"
      "rnd_sum (Fin 0) (map (\<lambda>x. x * x) c') = Fin s'" "0 \<le> s" "s \<le> s'" "s' \<le> real (length c)"
    by auto
  have n: "0 < real (length c)" using ne by simp
  have "s / real (length c) \<le> s' / real (length c)" "s' / real (length c) \<le> 1"
    using s n by (simp_all add: divide_right_mono)
  then obtain m m' where m: "fround binary64 (s / real (length c)) = Fin m"
      "fround binary64 (s' / real (length c)) = Fin m'" "0 \<le> m" "m \<le> m'" "m' \<le> 1"
    using fround_unit_mono [of "s / real (length c)" "s' / real (length c)" binary64]
      s(3) n representable64_one by auto
  obtain q q' where q: "fround binary64 (sqrt m) = Fin q" "fround binary64 (sqrt m') = Fin q'"
      "0 \<le> q" "q \<le> q'" "q' \<le> 1"
    using fround_unit_mono [of "sqrt m" "sqrt m'" binary64] m(3-5) representable64_one by auto
  obtain r r' where r: "fround binary32 q = Fin r" "fround binary32 q' = Fin r'" "0 \<le> r" "r \<le> r'" "r' \<le> 1"
    using fround_unit_mono [of q q' binary32] q(3-5) representable32_consts(1) by auto
  have "sum_sq rnd_ops (map Fin c) = Fin s" "sum_sq rnd_ops (map Fin c') = Fin s'"
    using s(1,2) by (simp_all only: sum_sq_rnd [OF c32] sum_sq_rnd [OF c'32'])
  then have "calculate_rms rnd_ops (map Fin c) = Fin r" "calculate_rms rnd_ops (map Fin c') = Fin r'"
    using ne ne' len n n' m(1-4) q(1,2) r(1,2)
    by (simp_all add: calculate_rms_def fround64_nat)
  then show ?thesis using r(3-5) by blast
qed

lemma rms_to_dbfs_rnd_mono:
  assumes "0 \<le> r" "r \<le> r'" "r' \<le> 1"
  shows "\<exists>d d'. rms_to_dbfs rnd_ops (Fin r) = Fin d \<and> rms_to_dbfs rnd_ops (Fin r') = Fin d' \<and> d \<le> d'"
proof -
  obtain m where m: "fround binary32 MIN_RMS = Fin m" "2 powi (-34) \<le> m" "m \<le> 1"
    using MIN_RMS_f32 by blast
  define x where "x = max r m"
  define x' where "x' = max r' m"
  have x: "0 < x" "x \<le> x'" "2 powi (-34) \<le> x" "x' \<le> 1"
    using m assms by (auto simp: x_def x'_def intro: less_le_trans [OF two_powi_pos])
  have L: "-11 \<le> log 10 x" "log 10 x \<le> log 10 x'" "log 10 x' \<le> 0"
    using x by (simp_all add: log10_ge_minus_11)
  obtain l where l: "fround binary32 (log 10 x) = Fin l" "-11 \<le> l"
    using fround_between [of binary32 "-11" 0 "log 10 x"] representable32_consts L by auto
  obtain l' where l': "fround binary32 (log 10 x') = Fin l'" "l' \<le> 0"
    using fround_between [of binary32 "-11" 0 "log 10 x'"] representable32_consts L by auto
  have ll: "l \<le> l'" using fround_mono [OF L(2) l(1) l'(1)] by simp
  have P: "-220 \<le> 20 * l" "20 * l \<le> 20 * l'" "20 * l' \<le> 0" using l(2) l'(2) ll by simp_all
  obtain d where d: "fround binary32 (20 * l) = Fin d"
    using fround_between [of binary32 "-220" 0 "20 * l"] representable32_consts P by auto
  obtain d' where d': "fround binary32 (20 * l') = Fin d'"
    using fround_between [of binary32 "-220" 0 "20 * l'"] representable32_consts P by auto
  have "d \<le> d'" using fround_mono [OF P(2) d d'] by simp
  moreover have "rms_to_dbfs rnd_ops (Fin r) = Fin d" "rms_to_dbfs rnd_ops (Fin r') = Fin d'"
    using m(1) x(1) x(2) l(1) l'(1) d d' representable32_consts(2)
    by (simp_all add: rms_to_dbfs_def x_def [symmetric] x'_def [symmetric] fround_representable
        not_less_iff_gr_or_eq)
  ultimately show ?thesis by blast
qed

section \<open>Property\<close>

text \<open>
  C14: the spec's monotonicity property (section 8) on the target arithmetic. If every
  sample of a chunk is at most as loud as the sample at the same index of a second,
  full-scale chunk of \<open>f32\<close> samples (as when the second is the first scaled by a gain
  \<open>k > 1\<close> and rounded back to \<open>f32\<close>), then the rounded analyser reports a finite decibel
  value for both chunks, and the first is at most the second.
\<close>

theorem rnd_chunk_gain_monotone:
  assumes "list_all2 (\<lambda>x y. \<bar>x\<bar> \<le> \<bar>y\<bar>) c c'" "list_all (representable binary32) c"
    "list_all (\<lambda>y. representable binary32 y \<and> \<bar>y\<bar> \<le> 1) c'" "c \<noteq> []" "length c < 2 ^ 53"
  shows "\<exists>d d'. rms_to_dbfs rnd_ops (calculate_rms rnd_ops (map Fin c)) = Fin d
    \<and> rms_to_dbfs rnd_ops (calculate_rms rnd_ops (map Fin c')) = Fin d' \<and> d \<le> d'"
proof -
  obtain r r' where "calculate_rms rnd_ops (map Fin c) = Fin r" "calculate_rms rnd_ops (map Fin c') = Fin r'"
      "0 \<le> r" "r \<le> r'" "r' \<le> 1"
    using calculate_rms_rnd_mono [OF assms] by blast
  then show ?thesis using rms_to_dbfs_rnd_mono [of r r'] by simp
qed

theorem rnd_chunk_gain_monotone_witness:
  "list_all2 (\<lambda>x y. \<bar>x\<bar> \<le> \<bar>y\<bar>) [0, 0] [1, 1 :: real] \<and> list_all (representable binary32) [0, 0]
   \<and> list_all (\<lambda>y. representable binary32 y \<and> \<bar>y\<bar> \<le> 1) [1, 1] \<and> [0, 0 :: real] \<noteq> []
   \<and> length [0, 0 :: real] < 2 ^ 53
   \<and> (\<exists>d d'. rms_to_dbfs rnd_ops (calculate_rms rnd_ops (map Fin [0, 0])) = Fin d
        \<and> rms_to_dbfs rnd_ops (calculate_rms rnd_ops (map Fin [1, 1])) = Fin d' \<and> d \<le> d')"
proof -
  have a: "list_all2 (\<lambda>x y. \<bar>x\<bar> \<le> \<bar>y\<bar>) [0, 0] [1, 1 :: real]" by simp
  have b: "list_all (representable binary32) [0, 0]" by simp
  have c: "list_all (\<lambda>y. representable binary32 y \<and> \<bar>y\<bar> \<le> 1) [1, 1]"
    using representable32_consts(1) by simp
  have d: "[0, 0 :: real] \<noteq> []" "length [0, 0 :: real] < 2 ^ 53" by simp_all
  show ?thesis using a b c d rnd_chunk_gain_monotone [OF a b c d] by blast
qed

end
