(* ===== verification/Host_Boundary.thy ===== *)
theory Host_Boundary
  imports Analyzer Special_Values
begin

text \<open>
  The host boundary of the exported function (\<open>src/src/core/wasm/src/lib.rs\<close>, lines
  67--73, 80 and 108): the JavaScript side holds \<open>Float32Array\<close> objects, the
  \<open>wasm_bindgen\<close> glue converts the JavaScript number \<open>chunk_size_samples\<close> to \<open>usize\<close>,
  \<open>pcm_data.to_vec()\<close> copies the samples into wasm memory and
  \<open>Float32Array::from\<close> / \<open>Float32Array::new_with_length(0)\<close> copy the result back into
  a new JavaScript array. The JavaScript heap is an explicit store \<open>js_heap\<close>: an
  association list from handles to the contents of the arrays and the next fresh handle.
  A handle below \<open>next_ref\<close> that is not in the list is an array whose buffer has been
  detached, which JavaScript reads as empty. The number conversion is the WebAssembly
  JS API's \<open>ToInt32\<close> read back as an unsigned 32-bit value: NaN and the infinities give 0,
  other numbers are truncated towards zero and taken modulo \<open>2^32\<close>.
  The store lemmas show that \<open>Float32Array::from\<close> allocates one fresh array and changes
  no other; the claim shows what the conversion does to the chunk sizes a JavaScript
  caller can pass that the spec's \<open>uint\<close> excludes.
\<close>

section \<open>Definitions\<close>

record 's js_heap =
  arrays :: "(nat \<times> 's list) list"
  next_ref :: nat

definition js_heap_ok :: "'s js_heap \<Rightarrow> bool" where
  "js_heap_ok h \<longleftrightarrow> list_all (\<lambda>(a, _). a < next_ref h) (arrays h)"

text \<open>\<open>pcm_data.to_vec()\<close>: a copy of the array's contents; a detached array is empty.\<close>

definition f32array_to_vec :: "'s js_heap \<Rightarrow> nat \<Rightarrow> 's list" where
  "f32array_to_vec h a = (case map_of (arrays h) a of Some xs \<Rightarrow> xs | None \<Rightarrow> [])"

text \<open>\<open>Float32Array::from(slice)\<close>: a new array with a copy of the slice, and its handle.\<close>

definition f32array_from :: "'s js_heap \<Rightarrow> 's list \<Rightarrow> 's js_heap \<times> nat" where
  "f32array_from h xs =
     (h\<lparr>arrays := (next_ref h, xs) # arrays h, next_ref := Suc (next_ref h)\<rparr>, next_ref h)"

text \<open>A JavaScript number passed for a \<open>usize\<close> parameter (\<open>ToInt32\<close>, read unsigned).\<close>

fun js_to_usize :: "fval \<Rightarrow> usize" where
  "js_to_usize (Fin r) = word_of_int (if 0 \<le> r then \<lfloor>r\<rfloor> else \<lceil>r\<rceil>)"
| "js_to_usize PInf = 0"
| "js_to_usize NInf = 0"
| "js_to_usize NaN = 0"

text \<open>
  \<open>analyzeAudioRms(pcm_data, chunk_size_samples)\<close> called from JavaScript: convert the
  chunk size, copy the samples in, run the Rust function, copy the result out into a new
  array (the empty array of line 80 and the \<open>from\<close> of line 108 alike). A panic leaves the
  heap unchanged.
\<close>

definition analyzeAudioRms_js ::
  "build \<Rightarrow> ('s, 'd) fops \<Rightarrow> 's js_heap \<Rightarrow> nat \<Rightarrow> fval \<Rightarrow> (panic + 's js_heap \<times> nat) option"
where
  "analyzeAudioRms_js b ops h pcm_data chunk_size_samples =
     map_option (map_sum id (f32array_from h))
       (analyze_audio_rms b ops (f32array_to_vec h pcm_data) (js_to_usize chunk_size_samples))"

section \<open>The store\<close>

lemma js_heap_ok_fresh: "js_heap_ok h \<Longrightarrow> map_of (arrays h) (next_ref h) = None"
  by (cases "map_of (arrays h) (next_ref h)") (auto simp: js_heap_ok_def list_all_iff dest!: map_of_SomeD)

lemma f32array_from_arrays:
  "map_of (arrays (fst (f32array_from h xs))) = (map_of (arrays h))(next_ref h \<mapsto> xs)"
  by (simp add: f32array_from_def)

lemma f32array_from_ok: "js_heap_ok h \<Longrightarrow> js_heap_ok (fst (f32array_from h xs))"
  by (auto simp: js_heap_ok_def f32array_from_def list_all_iff)

lemma f32array_to_vec_from:
  "a \<noteq> next_ref h \<Longrightarrow> f32array_to_vec (fst (f32array_from h xs)) a = f32array_to_vec h a"
  by (simp add: f32array_to_vec_def f32array_from_def)

lemma f32array_from_to_vec:
  "f32array_to_vec (fst (f32array_from h xs)) (snd (f32array_from h xs)) = xs"
  by (simp add: f32array_to_vec_def f32array_from_def)

section \<open>The number conversion\<close>

lemma js_to_usize_nat: "k < 2 ^ 32 \<Longrightarrow> unat (js_to_usize (Fin (real k))) = k"
  by (simp add: unat_of_nat)

lemma js_to_usize_minus_one: "js_to_usize (Fin (-1)) = - 1"
  by (simp add: ceiling_minus)

lemma js_to_usize_fraction: "0 \<le> r \<Longrightarrow> r < 1 \<Longrightarrow> js_to_usize (Fin r) = 0"
  using floor_unique [of 0 r] by simp

lemma unat_minus_one_usize: "unat (- 1 :: usize) = 2 ^ 32 - 1"
  by (simp add: unat_eq_nat_uint uint_word_ariths)

section \<open>Properties\<close>

text \<open>
  C32: chunk sizes outside the spec's \<open>uint\<close> that a JavaScript caller can pass. The
  conversion does not reject them: \<open>-1\<close> arrives as \<open>usize::MAX\<close>, so a debug build panics
  on the overflow of line 84 for every non-empty buffer, while a release build returns a
  single value, the level of the whole buffer as one chunk; a fraction below 1 and NaN
  arrive as 0 and give the empty array of line 80, in either build.
\<close>

theorem js_invalid_chunk_sizes:
  assumes pcm: "map_of (arrays h) p = Some pcm" "pcm \<noteq> []" and fits: "4 * length pcm \<le> isize_max"
  shows "analyzeAudioRms_js Debug ops h p (Fin (-1)) = Some (Inl AddOverflow)
    \<and> analyzeAudioRms_js Release ops h p (Fin (-1))
        = Some (Inr (f32array_from h [rms_to_dbfs ops (calculate_rms ops pcm)]))
    \<and> analyzeAudioRms_js b ops h p (Fin (1 / 2)) = Some (Inr (f32array_from h []))
    \<and> analyzeAudioRms_js b ops h p NaN = Some (Inr (f32array_from h []))"
proof -
  have v: "f32array_to_vec h p = pcm" using pcm(1) by (simp add: f32array_to_vec_def)
  have len: "length pcm < 2 ^ 32 - 1" using fits by (simp add: isize_max_def)
  have "2 ^ 32 \<le> length pcm + unat (- 1 :: usize)" using pcm(2) by (simp add: unat_minus_one_usize Suc_le_eq)
  then have dbg: "analyze_audio_rms Debug ops pcm (- 1) = Some (Inl AddOverflow)"
    using pcm(2) analyze_audio_rms_Debug_result [OF fits, of ops "- 1"] by simp
  have "chunks (unat (- 1 :: usize)) pcm = [pcm]"
    using pcm(2) len by (intro chunks_short) (simp_all add: unat_minus_one_usize)
  then have rel: "analyze_audio_rms Release ops pcm (- 1) = Some (Inr [rms_to_dbfs ops (calculate_rms ops pcm)])"
    using analyze_audio_rms_Release_result [OF fits, of ops "- 1"] by simp
  have zero: "analyze_audio_rms b ops pcm 0 = Some (Inr [])" by (simp add: analyze_audio_rms_def)
  have half: "js_to_usize (Fin (1 / 2)) = 0" by (rule js_to_usize_fraction) simp_all
  show ?thesis
    using dbg rel zero
    by (simp add: analyzeAudioRms_js_def v js_to_usize_minus_one half del: js_to_usize.simps(1))
qed

theorem js_invalid_chunk_sizes_witness:
  "map_of (arrays \<lparr>arrays = [(0, [1, 1 :: real])], next_ref = 1\<rparr>) 0 = Some [1, 1]
   \<and> [1, 1 :: real] \<noteq> [] \<and> 4 * length [1, 1 :: real] \<le> isize_max
   \<and> analyzeAudioRms_js Debug real_ops \<lparr>arrays = [(0, [1, 1])], next_ref = 1\<rparr> 0 (Fin (-1))
       = Some (Inl AddOverflow)
   \<and> analyzeAudioRms_js Release real_ops \<lparr>arrays = [(0, [1, 1])], next_ref = 1\<rparr> 0 (Fin (-1))
       = Some (Inr (f32array_from \<lparr>arrays = [(0, [1, 1])], next_ref = 1\<rparr>
                      [rms_to_dbfs real_ops (calculate_rms real_ops [1, 1])]))
   \<and> analyzeAudioRms_js Release real_ops \<lparr>arrays = [(0, [1, 1])], next_ref = 1\<rparr> 0 (Fin (1 / 2))
       = Some (Inr (f32array_from \<lparr>arrays = [(0, [1, 1])], next_ref = 1\<rparr> []))
   \<and> analyzeAudioRms_js Release real_ops \<lparr>arrays = [(0, [1, 1 :: real])], next_ref = 1\<rparr> 0 NaN
       = Some (Inr (f32array_from \<lparr>arrays = [(0, [1, 1])], next_ref = 1\<rparr> []))"
proof -
  have pcm: "map_of (arrays \<lparr>arrays = [(0, [1, 1 :: real])], next_ref = 1\<rparr>) 0 = Some [1, 1]" by simp
  have ne: "[1, 1 :: real] \<noteq> []" by simp
  have fits: "4 * length [1, 1 :: real] \<le> isize_max" by (simp add: isize_max_def)
  show ?thesis using pcm ne fits js_invalid_chunk_sizes [OF pcm ne fits, of real_ops Release] by blast
qed

end
