(* ===== verification/Spec2Isabelle.thy ===== *)
theory Spec2Isabelle
  imports Loop_Semantics Rounding_Error Rounded_Monotone Host_Boundary
begin

text \<open>
  \<^bold>\<open>A verification library for the audio-level analyser of
  \<open>src/src/core/wasm/src/lib.rs\<close>.\<close>

  \<^bold>\<open>The program.\<close> A WebAssembly module (Rust, \<open>wasm_bindgen\<close>) exports
  \<open>analyze_audio_rms(pcm_data, chunk_size_samples)\<close> (JavaScript name
  \<open>analyzeAudioRms\<close>): it copies a \<open>Float32Array\<close> of PCM samples into a \<open>Vec<f32>\<close>,
  returns an empty array when the buffer is empty or the chunk size is 0, computes the
  result capacity \<open>(total + chunk - 1) / chunk\<close> in \<open>usize\<close>, walks
  \<open>chunks_exact(chunk)\<close>, pushing \<open>rms_to_dbfs(calculate_rms(chunk))\<close> for every full
  chunk, then does the same for the non-empty remainder, and returns the values.
  \<open>calculate_rms\<close> sums the squares in \<open>f64\<close> and takes the root of the mean;
  \<open>rms_to_dbfs\<close> clamps with \<open>max(MIN_RMS)\<close>, \<open>MIN_RMS = 1e-10\<close>, and returns
  \<open>20 log10\<close>. \<open>init_panic_hook\<close> installs a console panic hook when the crate
  feature is enabled. No component keeps state across calls.

  \<^bold>\<open>Theories and what they model.\<close>
  \<^item> \<open>Audio_Prelude\<close>: \<open>usize\<close> (= \<open>32 word\<close>, the wasm32 width), the collection
    \<open>audio_simps\<close>, shared lemmas on folds, sums of squares and base-10 logarithms.
  \<^item> \<open>Float_Ops\<close>: the interface between the numeric code and its arithmetic, a record
    \<open>fops\<close> with one field per primitive Rust operation on \<open>f32\<close>/\<open>f64\<close> (casts,
    \<open>+\<close>, \<open>*\<close>, \<open>/\<close>, \<open>sqrt\<close>, \<open>max\<close>, \<open>log10\<close>, literals), and its exact-real
    instance \<open>real_ops\<close>.
  \<^item> \<open>Rms\<close>: \<open>MIN_RMS\<close> (line 7), \<open>sum_sq\<close> (line 34), \<open>calculate_rms\<close> (lines
    27--39), \<open>rms_to_dbfs\<close> (lines 47--54), written against \<open>fops\<close>; their exact
    meaning and the claims C9--C13 and C15--C17 on them.
  \<^item> \<open>Chunks\<close>: the abstract partition rule \<open>chunks\<close> of the spec (section 4.3), with
    its termination measure (the length of the rest) and claim C8.
  \<^item> \<open>Rust_Std\<close>: the standard-library behaviour the code depends on, modelled from its
    documentation: \<open>usize\<close> \<open>+\<close>/\<open>-\<close> (panic in a debug build, wrap-around in a release
    build, datatype \<open>build\<close>), \<open>/\<close> (panics on 0), \<open>chunks_exact\<close> with \<open>next\<close> and
    \<open>remainder\<close>, \<open>Vec\<close> as a record of buffer and capacity with \<open>with_capacity\<close>
    and the amortised growth of \<open>push\<close>. Panics are values of the datatype \<open>panic\<close>.
  \<^item> \<open>Analyzer\<close>: \<open>init_panic_hook\<close> (lines 13--17), \<open>num_chunks\<close> (line 84),
    \<open>push_chunks\<close> (the loop of lines 94--97, a \<open>partial_function (option)\<close>),
    \<open>push_remainder\<close> (lines 100--104), \<open>analyze_vec\<close> (lines 84--104) and
    \<open>analyze_audio_rms\<close> (lines 67--109), whose result type
    \<open>(panic + 's list) option\<close> has a branch for each outcome: a panic (\<open>Inl\<close>), the
    returned array (\<open>Inr\<close>), and \<open>None\<close> for a call that never returns. Claims C1--C6,
    C18.
  \<^item> \<open>Special_Values\<close>: a second instance \<open>ieee_ops\<close> of \<open>fops\<close> over the datatype
    \<open>fval\<close> (finite real, \<open>+inf\<close>, \<open>-inf\<close>, NaN) with the IEEE rules for the special
    values and Rust's NaN-ignoring \<open>f32::max\<close> (\<open>fv_max\<close>); claims C19--C21.
  \<^item> \<open>Loop_Semantics\<close>: the \<open>for\<close> loop of lines 94--97 as a labelled small-step
    relation \<open>loop_step\<close> (one iteration, labelled with the chunk that \<open>next\<close> yields),
    its runs \<open>loop_run\<close> with their trace of chunks, and the exit condition
    \<open>loop_exit\<close> (\<open>next\<close> returns \<open>None\<close>); claims C22, C23.
  \<^item> \<open>Binary_Float\<close>: IEEE-754 binary formats (\<open>binary32\<close>, \<open>binary64\<close>), the binade
    exponent \<open>ilog2\<close> (executable, through \<open>floorlog\<close>), quanta, representable values and
    \<open>fround\<close>, rounding to nearest with ties to even and overflow to infinity.
  \<^item> \<open>Rounded_Arith\<close>: the third instance \<open>rnd_ops\<close> of \<open>fops\<close>, the arithmetic the
    target performs: every \<open>f64\<close> operation rounds to binary64, every \<open>f32\<close> one and
    the cast \<open>as f32\<close> round to binary32; claims C24--C26.
  \<^item> \<open>Rounded_Floor\<close>: the \<open>f32\<close> value \<open>14411519 / 2^57\<close> of the literal \<open>MIN_RMS\<close>,
    its rounded \<open>log10\<close> (exactly -10) and the decibel floor under rounding; claims
    C27, C28.
  \<^item> \<open>Rounded_Monotone\<close>: rounding to nearest is nearest (no representable value is
    closer, the IEEE \<open>is_closest\<close> property) and therefore monotone; each step of
    \<open>calculate_rms\<close> and \<open>rms_to_dbfs\<close> under \<open>rnd_ops\<close> preserves order; claim C14.
  \<^item> \<open>Rounding_Error\<close>: the error of one rounding (half a quantum; at most \<open>2^-p\<close> of
    the value in the normal range), its propagation through the \<open>f64\<close> sum of squares
    (by induction over the fold of line 34), the mean, the root, the cast to \<open>f32\<close>, the
    clamp, \<open>log10\<close> and the product of \<open>rms_to_dbfs\<close>; claims C30, C31.
  \<^item> \<open>Host_Boundary\<close>: the JavaScript side of the export. The heap of \<open>Float32Array\<close>
    objects is an explicit store (\<open>js_heap\<close>, handles to contents); \<open>to_vec\<close> (line 73)
    copies an array in, \<open>Float32Array::from\<close> and \<open>new_with_length(0)\<close> (lines 108,
    80) allocate a fresh one, \<open>js_to_usize\<close> is the \<open>wasm_bindgen\<close> conversion of the
    JavaScript chunk size (\<open>ToInt32\<close> read unsigned), and \<open>analyzeAudioRms_js\<close>
    composes them with \<open>analyze_audio_rms\<close>; claim C32.
  \<^item> This theory: the concrete scenarios of the spec (C7) and the outcomes of the
    exported function on every input (C29).

  \<^bold>\<open>What is proved.\<close> C1 is the contract of the exported function for every
  arithmetic and both build profiles: the call returns; its result is the abstract
  partition \<open>chunks\<close> mapped through the reducer and the converter (a functional
  refinement of the \<open>chunks_exact\<close>/\<open>remainder\<close> iteration by \<open>chunks\<close>), except
  that a debug build panics when \<open>total + chunk \<ge> 2^32\<close>. C2--C4 are the spec's length law,
  index correspondence and early-return law; C5 shows the precomputed capacity is exact
  (the loop never reallocates) when line 84 does not wrap; C6 bounds the capacity
  computation. C18 shows the other side of line 84: in a release build the sum wraps,
  the capacity becomes 0 and the push reallocates. C8 is the partition law of the spec
  that C1 refines. C9--C13 and C15--C17 are the numeric laws in exact arithmetic: RMS
  of constant chunks, zero exactly on silence, homogeneity, peak bound, the -200 dBFS
  floor reached exactly at and below \<open>MIN_RMS\<close>, monotonicity, 0 dBFS exactly up to
  full scale, and the spec's gain monotonicity. C14 is that gain monotonicity on the
  target: under IEEE rounding, a chunk whose samples are pointwise at most as loud as
  those of a full-scale \<open>f32\<close> chunk is reported at a finite level no higher than that
  chunk's, because rounding to nearest is monotone (proved from its nearest-value
  property) and so is every step. C19--C21 concern the special values: a chunk
  containing NaN is reported at -200 dBFS, because \<open>f32::max\<close> drops the NaN that the
  sum of squares propagates (a gap in the spec, which only says NaN propagates); a chunk
  with an infinite sample and no NaN is reported at \<open>+inf\<close>; and on finite samples the
  special-value analyser equals the exact-real one through \<open>Fin\<close> (a refinement).
  C29 covers every input, without the buffer hypothesis: the call always returns and
  its only panics are the debug-build overflow of line 84 and the capacity overflow of
  \<open>Vec::with_capacity\<close>; the division and \<open>chunks_exact\<close> never panic.
  C22 and C23 concern the loop as a state machine: along every run the consumed samples
  are the concatenation of the full chunks of the trace, the \<open>Vec\<close> holds their dBFS
  values in order and stays within its capacity (an invariant, by rule induction); and
  the trace of the complete loop followed by the remainder is the partition \<open>chunks\<close>
  of the input (every sample read once, in order). The lemmas of \<open>Loop_Semantics\<close> also
  show that the small-step runs and the \<open>partial_function\<close> agree and that every run
  exits.
  C24--C26 hold under IEEE rounding: the sum of squares of line 34 rounds only its
  additions (widening before squaring makes every square exact); it never overflows
  for finite samples; and for samples in \<open>[-1, 1]\<close> every returned value is finite and
  between -220 and 0 dBFS, in both builds. C27 and C28 compute the floor on the target:
  every amplitude at or below the \<open>f32\<close> value of \<open>MIN_RMS\<close> is reported at exactly
  -200 dBFS, and a silent buffer yields exactly -200 for every chunk (the spec's second
  scenario, bit for bit).
  C30 and C31 bound the rounding error: the rounded RMS of \<open>N\<close> copies of a full-scale
  sample \<open>a\<close> is within \<open>|a| 2^-20 + 2^-150\<close> of \<open>|a|\<close> (the spec's "within
  floating-point tolerance", made quantitative), and the rounded analyser refines the
  exact-real one: for full-scale \<open>f32\<close> samples, whenever it returns, the exact
  analyser returns a list of the same length and every rounded decibel value is finite
  and within 0.001 dB of the exact one (the proof gives about \<open>1.1 * 10^-4\<close> dB).
  C32 concerns the host boundary: chunk sizes outside the spec's \<open>uint\<close> are not
  rejected: \<open>-1\<close> arrives as \<open>usize::MAX\<close>, so a debug build panics for every non-empty
  buffer (the finding that the spec's "never fails" does not hold for a debug build)
  and a release build reports the whole buffer as one chunk, while \<open>0.5\<close> and NaN arrive
  as 0 and give the empty array (a gap in the spec).
  All of the rounding claims rest on one property of rounding, proved once in
  \<open>Binary_Float\<close>: a real between two representable values rounds to a finite value
  between them.

  \<^bold>\<open>Bounds and hypotheses.\<close> The buffer hypothesis \<open>4 * length pcm \<le> isize_max\<close>
  (\<open>2^31 - 1\<close>) says that the \<open>Vec<f32>\<close> copy exists in the wasm32 address space; it
  also makes \<open>pcm_vec.len()\<close> exact in \<open>usize\<close>. No fuel is used: the loop is a
  \<open>partial_function (option)\<close>; the lemma \<open>push_chunks_Some\<close> shows it terminates, and C1
  shows that the call returns.
  The rounding claims bound chunks by \<open>2^53\<close> samples (every \<open>f32\<close> buffer that fits in
  the wasm32 address space is far shorter), the length up to which every count is an
  exact \<open>f64\<close> value. The error bounds use chunks of at most \<open>2^29\<close> samples, which the
  buffer hypothesis implies: with \<open>n + 2\<close> roundings of relative error \<open>2^-53\<close> the
  accumulated factor stays within \<open>1 +- 2^-22\<close>. Squares of \<open>f32\<close> samples are 0 or at
  least \<open>2^-298\<close>, so every \<open>f64\<close> partial sum, mean and root is 0 or a normal number.

  \<^bold>\<open>Not modelled.\<close> The sign of zero and NaN payloads, which no returned value
  distinguishes (\<open>-0.0\<close> dBFS cannot arise: the clamped amplitude is positive); the
  accuracy of the platform's \<open>log10f\<close>, which \<open>rnd_ops\<close> takes as correctly rounded (the
  proof of C26 uses only that the rounded \<open>log10\<close> of a value in \<open>[2^-34, 1]\<close> lies in
  \<open>[-11, 0]\<close>). JavaScript values other than
  numbers passed for the chunk size (their \<open>ToNumber\<close> conversion) and objects other
  than \<open>Float32Array\<close> passed for the samples; allocation failure (an abort) and the
  console hook's output are outside the model.
  The error bounds of C30 and C31 do not cover samples outside \<open>[-1, 1]\<close>, where the
  spec's full-scale convention does not hold.
\<close>

section \<open>The spec's concrete scenarios\<close>

lemma calculate_rms_ones:
  "0 < n \<Longrightarrow> calculate_rms real_ops (replicate n (1::real)) = 1"
  by (simp add: calculate_rms_real sum_list_replicate)

lemma calculate_rms_zeros:
  "calculate_rms real_ops (replicate n (0::real)) = 0"
  by (simp add: calculate_rms_real sum_list_replicate)

text \<open>
  C7: the five scenarios of the spec's section 8, in both build profiles:
  \<open>[1,1,1,1]\<close>/4 gives \<open>[0]\<close>; \<open>[0,0,0]\<close>/3 gives \<open>[-200]\<close>; \<open>[1,1,1]\<close>/2 gives
  \<open>[0, 0]\<close> (a full chunk and a one-sample remainder); \<open>[]\<close>/10 and \<open>[0.5]\<close>/0 give
  \<open>[]\<close>.
\<close>

theorem spec_scenarios:
  "analyze_audio_rms b real_ops [1, 1, 1, 1] 4 = Some (Inr [0])
   \<and> analyze_audio_rms b real_ops [0, 0, 0] 3 = Some (Inr [-200])
   \<and> analyze_audio_rms b real_ops [1, 1, 1] 2 = Some (Inr [0, 0])
   \<and> analyze_audio_rms b real_ops [] 10 = Some (Inr [])
   \<and> analyze_audio_rms b real_ops [1/2] 0 = Some (Inr [])"
proof -
  have c1: "chunks 4 [1, 1, 1, 1 :: real] = [replicate 4 1]"
    by (simp add: chunks_short numeral_eq_Suc)
  have c2: "chunks 3 [0, 0, 0 :: real] = [replicate 3 0]"
    by (simp add: chunks_short numeral_eq_Suc)
  have c3: "chunks 2 [1, 1, 1 :: real] = [replicate 2 1, replicate 1 1]"
    by (simp add: chunks_step chunks_short numeral_eq_Suc)
  have r1: "rms_to_dbfs real_ops (calculate_rms real_ops (replicate k (1::real))) = 0" if "0 < k" for k
    using that by (simp add: calculate_rms_ones)
  have r0: "rms_to_dbfs real_ops (calculate_rms real_ops (replicate 3 (0::real))) = -200"
    by (simp add: calculate_rms_zeros rms_to_dbfs_real_at_floor)
  have fit: "4 * length xs \<le> isize_max" if "length xs \<le> 4" for xs :: "real list"
    using that by (simp add: isize_max_def)
  have release: "analyze_audio_rms Release real_ops xs n
                   = Some (Inr (map (\<lambda>c. rms_to_dbfs real_ops (calculate_rms real_ops c)) (chunks (unat n) xs)))"
    if "length xs \<le> 4" for xs n
    by (rule analyze_audio_rms_Release_result [OF fit [OF that]])
  have debug: "analyze_audio_rms Debug real_ops xs n
                   = Some (Inr (map (\<lambda>c. rms_to_dbfs real_ops (calculate_rms real_ops c)) (chunks (unat n) xs)))"
    if "length xs \<le> 4" "unat n \<le> 10" for xs n
    using that by (simp add: analyze_audio_rms_Debug_result [OF fit [OF that(1)]])
  have "analyze_audio_rms b real_ops [1, 1, 1, 1] 4 = Some (Inr [0])"
    using release [of "[1, 1, 1, 1]" 4] debug [of "[1, 1, 1, 1]" 4] c1 r1 [of 4]
    by (cases b) simp_all
  moreover have "analyze_audio_rms b real_ops [0, 0, 0] 3 = Some (Inr [-200])"
    using release [of "[0, 0, 0]" 3] debug [of "[0, 0, 0]" 3] c2 r0
    by (cases b) simp_all
  moreover have "analyze_audio_rms b real_ops [1, 1, 1] 2 = Some (Inr [0, 0])"
    using release [of "[1, 1, 1]" 2] debug [of "[1, 1, 1]" 2] c3 r1 [of 2] r1 [of 1]
    by (cases b) simp_all
  moreover have "analyze_audio_rms b real_ops [] 10 = Some (Inr [])"
    by (simp add: analyze_audio_rms_def)
  moreover have "analyze_audio_rms b real_ops [1/2] 0 = Some (Inr [])"
    by (simp add: analyze_audio_rms_def)
  ultimately show ?thesis by blast
qed

section \<open>Outcomes of the exported function on every input\<close>

lemma num_chunks_panic:
  assumes "t \<noteq> 0" "n \<noteq> 0" "num_chunks b t n = Inl e"
  shows "b = Debug \<and> e = AddOverflow"
  using assms num_chunks_Release [OF assms(2), of t] num_chunks_Debug [OF assms(1,2)]
  by (cases b) (auto split: if_splits)

lemma analyze_vec_outcomes:
  assumes "n \<noteq> 0" "num_chunks b t n = Inr nc"
  shows "analyze_vec b ops pcm t n = Some (Inl CapacityOverflow)
         \<or> (\<exists>v. analyze_vec b ops pcm t n = Some (Inr v))"
proof (cases "4 * unat nc \<le> isize_max")
  case True
  then show ?thesis using analyze_vec_result [OF assms(2) True assms(1)] by blast
next
  case False
  then show ?thesis using assms(2) by (simp add: analyze_vec_def vec_with_capacity_def)
qed

text \<open>
  C29: on every input, in both builds and for every arithmetic, the exported function
  returns (never \<open>None\<close>) and never panics on the division or in \<open>chunks_exact\<close>: the
  early return of line 78 rules out a zero divisor and a zero chunk size, and the
  subtraction of line 84 cannot underflow. The only panics are the debug-build overflow
  of the addition on line 84 and the capacity overflow of \<open>Vec::with_capacity\<close> (which
  C1 excludes for every buffer that fits in memory).
\<close>

theorem analyze_audio_rms_outcomes:
  "(\<exists>r. analyze_audio_rms b ops pcm n = Some (Inr r))
   \<or> (b = Debug \<and> analyze_audio_rms b ops pcm n = Some (Inl AddOverflow))
   \<or> analyze_audio_rms b ops pcm n = Some (Inl CapacityOverflow)"
proof -
  let ?t = "word_of_nat (length pcm) :: usize"
  show ?thesis
  proof (cases "?t = 0 \<or> n = 0")
    case True
    then show ?thesis by (simp add: analyze_audio_rms_def)
  next
    case False
    show ?thesis
    proof (cases "num_chunks b ?t n")
      case (Inl e)
      then have "b = Debug \<and> e = AddOverflow" using False by (intro num_chunks_panic) simp_all
      then show ?thesis using False Inl by (simp add: analyze_audio_rms_def analyze_vec_def)
    next
      case (Inr nc)
      then show ?thesis
        using False analyze_vec_outcomes [of n b ?t nc ops pcm]
        by (auto simp: analyze_audio_rms_def)
    qed
  qed
qed

end
